theory Spec2Isabelle
  imports Complex_Main
begin

section \<open>Linear expressions over decision variables\<close>

text \<open>
  The notebook builds its model with the constructors and arithmetic operators of the
  optimisation library: \<^verbatim>\<open>LpVariable(name, lowBound=0, cat='Integer')\<close>, products of a
  number with a variable, sums and differences of expressions, comparisons of an expression
  with a number, and \<^verbatim>\<open>prob += ...\<close>. A decision variable carries its name, its two
  optional bounds (an absent bound is \<open>None\<close>) and its category.
\<close>

datatype category = Continuous | Integer

record variable =
  name :: string
  lowBound :: "real option"
  upBound :: "real option"
  cat :: category

text \<open>
  Modelled from the spec: the library's expression type and its arithmetic operators are not
  in the repository. A linear expression is a mapping from variables to coefficients together
  with a constant term, here an insertion-ordered table; no variable occurs twice, and
  inserting a variable that is already present adds the coefficients.
\<close>

record 'k linear_expression =
  terms :: "('k \<times> real) list"
  constant_term :: real

fun addterm :: "'k \<Rightarrow> real \<Rightarrow> ('k \<times> real) list \<Rightarrow> ('k \<times> real) list" where
  "addterm k v [] = [(k, v)]"
| "addterm k v ((k', c) # ts) =
     (if k' = k then (k', c + v) # ts else (k', c) # addterm k v ts)"

fun addterms :: "('k \<times> real) list \<Rightarrow> ('k \<times> real) list \<Rightarrow> ('k \<times> real) list" where
  "addterms acc [] = acc"
| "addterms acc ((k, v) # ts) = addterms (addterm k v acc) ts"

definition var_expr :: "'k \<Rightarrow> 'k linear_expression" where
  "var_expr x = \<lparr>terms = [(x, 1)], constant_term = 0\<rparr>"

definition scale :: "real \<Rightarrow> 'k linear_expression \<Rightarrow> 'k linear_expression" where
  "scale k e =
     \<lparr>terms = map (\<lambda>(x, c). (x, k * c)) (terms e), constant_term = k * constant_term e\<rparr>"

definition add_expr :: "'k linear_expression \<Rightarrow> 'k linear_expression \<Rightarrow> 'k linear_expression" where
  "add_expr e f =
     \<lparr>terms = addterms (terms e) (terms f),
      constant_term = constant_term e + constant_term f\<rparr>"

definition sub_expr :: "'k linear_expression \<Rightarrow> 'k linear_expression \<Rightarrow> 'k linear_expression" where
  "sub_expr e f = add_expr e (scale (- 1) f)"

text \<open>The coefficient of a variable in an expression (0 when the variable is absent).\<close>

definition coefficient :: "'k linear_expression \<Rightarrow> 'k \<Rightarrow> real" where
  "coefficient e x = (case map_of (terms e) x of Some c \<Rightarrow> c | None \<Rightarrow> 0)"

section \<open>Constraints and problems\<close>

text \<open>
  Modelled from the spec: a constraint is a linear expression, a relational operator and a
  right-hand-side constant; a problem has a sense, an objective and an ordered sequence of
  constraints, accumulated by repeated in-place additions.
\<close>

datatype relation = LE | EQ | GE

record 'k constraint =
  expression :: "'k linear_expression"
  operator :: relation
  rhs :: real

definition le_constraint :: "'k linear_expression \<Rightarrow> real \<Rightarrow> 'k constraint" where
  "le_constraint e b = \<lparr>expression = e, operator = LE, rhs = b\<rparr>"

datatype sense = Maximize | Minimize

record lp_problem =
  title :: string
  direction :: sense
  objective :: "variable linear_expression option"
  constraints :: "variable constraint list"

definition LpProblem :: "string \<Rightarrow> sense \<Rightarrow> lp_problem" where
  "LpProblem n s = \<lparr>title = n, direction = s, objective = None, constraints = []\<rparr>"

text \<open>
  \<^verbatim>\<open>prob += x\<close> sets the objective when \<open>x\<close> is an expression (replacing an earlier
  one) and appends to the ordered constraint sequence when \<open>x\<close> is a constraint.
\<close>

datatype addend = Objective "variable linear_expression" | Constraint "variable constraint"

fun iadd :: "lp_problem \<Rightarrow> addend \<Rightarrow> lp_problem" where
  "iadd p (Objective e) = p\<lparr>objective := Some e\<rparr>"
| "iadd p (Constraint c) = p\<lparr>constraints := constraints p @ [c]\<rparr>"

section \<open>The Giapetto notebook\<close>

definition soldiers :: variable where
  "soldiers = \<lparr>name = ''soldiers'', lowBound = Some 0, upBound = None, cat = Integer\<rparr>"

definition trains :: variable where
  "trains = \<lparr>name = ''trains'', lowBound = Some 0, upBound = None, cat = Integer\<rparr>"

definition raw_material_costs :: "variable linear_expression" where
  "raw_material_costs = add_expr (scale 10 (var_expr soldiers)) (scale 9 (var_expr trains))"

definition variable_costs :: "variable linear_expression" where
  "variable_costs = add_expr (scale 14 (var_expr soldiers)) (scale 10 (var_expr trains))"

definition revenues :: "variable linear_expression" where
  "revenues = add_expr (scale 27 (var_expr soldiers)) (scale 21 (var_expr trains))"

definition profit :: "variable linear_expression" where
  "profit = sub_expr revenues (add_expr raw_material_costs variable_costs)"

definition carpentry_hours :: "variable linear_expression" where
  "carpentry_hours = add_expr (var_expr soldiers) (var_expr trains)"

definition finishing_hours :: "variable linear_expression" where
  "finishing_hours = add_expr (scale 2 (var_expr soldiers)) (var_expr trains)"

definition prob :: lp_problem where
  "prob =
     iadd (iadd (iadd (iadd (LpProblem ''Giapetto'' Maximize)
       (Objective profit))
       (Constraint (le_constraint carpentry_hours 80)))
       (Constraint (le_constraint finishing_hours 100)))
       (Constraint (le_constraint (var_expr soldiers) 40))"

text \<open>
  The literal example model: maximise \<open>3*soldiers + 2*trains\<close> subject to
  \<open>soldiers + trains \<le> 80\<close>, \<open>2*soldiers + trains \<le> 100\<close> and \<open>soldiers \<le> 40\<close>.
\<close>

definition literal_objective :: "variable linear_expression" where
  "literal_objective = add_expr (scale 3 (var_expr soldiers)) (scale 2 (var_expr trains))"

definition literal_model :: lp_problem where
  "literal_model =
     \<lparr>title = ''Giapetto'', direction = Maximize,
      objective = Some literal_objective,
      constraints =
        [le_constraint (add_expr (var_expr soldiers) (var_expr trains)) 80,
         le_constraint (add_expr (scale 2 (var_expr soldiers)) (var_expr trains)) 100,
         le_constraint (var_expr soldiers) 40]\<rparr>"

section \<open>Meaning of expressions, constraints and problems\<close>

text \<open>
  An assignment gives every variable a value. Substituting it into a linear expression gives
  the sum of coefficient times value over the table plus the constant term; a constraint
  holds if its relation holds between the value of its expression and its right-hand side.
\<close>

definition eval_expr :: "('k \<Rightarrow> real) \<Rightarrow> 'k linear_expression \<Rightarrow> real" where
  "eval_expr a e = sum_list (map (\<lambda>(x, c). c * a x) (terms e)) + constant_term e"

fun holds :: "relation \<Rightarrow> real \<Rightarrow> real \<Rightarrow> bool" where
  "holds LE l r = (l \<le> r)"
| "holds EQ l r = (l = r)"
| "holds GE l r = (r \<le> l)"

definition satisfies :: "('k \<Rightarrow> real) \<Rightarrow> 'k constraint \<Rightarrow> bool" where
  "satisfies a c = holds (operator c) (eval_expr a (expression c)) (rhs c)"

text \<open>A constraint holds within a tolerance \<open>eps\<close> if its relation holds after the right-hand
  side is relaxed by \<open>eps\<close>.\<close>

definition satisfies_within :: "real \<Rightarrow> ('k \<Rightarrow> real) \<Rightarrow> 'k constraint \<Rightarrow> bool" where
  "satisfies_within eps a c =
     (case operator c of
        LE \<Rightarrow> eval_expr a (expression c) \<le> rhs c + eps
      | EQ \<Rightarrow> \<bar>eval_expr a (expression c) - rhs c\<bar> \<le> eps
      | GE \<Rightarrow> rhs c - eps \<le> eval_expr a (expression c))"

definition slack :: "('k \<Rightarrow> real) \<Rightarrow> 'k constraint \<Rightarrow> real" where
  "slack a c = rhs c - eval_expr a (expression c)"

text \<open>
  The variables of a problem are those of its objective and constraints, here in order of
  first occurrence. An assignment is feasible for the relaxation if every variable is within
  its bounds and every constraint holds, and feasible if moreover every variable of category
  \<open>Integer\<close> has an integral value.
\<close>

definition within_bounds :: "(variable \<Rightarrow> real) \<Rightarrow> variable \<Rightarrow> bool" where
  "within_bounds a x =
     ((case lowBound x of None \<Rightarrow> True | Some l \<Rightarrow> l \<le> a x) \<and>
      (case upBound x of None \<Rightarrow> True | Some u \<Rightarrow> a x \<le> u))"

definition integral :: "(variable \<Rightarrow> real) \<Rightarrow> variable \<Rightarrow> bool" where
  "integral a x = (case cat x of Continuous \<Rightarrow> True | Integer \<Rightarrow> a x \<in> \<int>)"

fun first_occurrences :: "'a list \<Rightarrow> 'a list \<Rightarrow> 'a list" where
  "first_occurrences seen [] = seen"
| "first_occurrences seen (x # xs) =
     (if x \<in> set seen then first_occurrences seen xs else first_occurrences (seen @ [x]) xs)"

definition expressions :: "lp_problem \<Rightarrow> variable linear_expression list" where
  "expressions p =
     (case objective p of None \<Rightarrow> [] | Some e \<Rightarrow> [e]) @ map expression (constraints p)"

definition variables :: "lp_problem \<Rightarrow> variable list" where
  "variables p = first_occurrences [] (concat (map (\<lambda>e. map fst (terms e)) (expressions p)))"

definition lp_feasible :: "lp_problem \<Rightarrow> (variable \<Rightarrow> real) \<Rightarrow> bool" where
  "lp_feasible p a =
     (list_all (within_bounds a) (variables p) \<and> list_all (satisfies a) (constraints p))"

definition feasible :: "lp_problem \<Rightarrow> (variable \<Rightarrow> real) \<Rightarrow> bool" where
  "feasible p a = (lp_feasible p a \<and> list_all (integral a) (variables p))"

definition objective_value :: "lp_problem \<Rightarrow> (variable \<Rightarrow> real) \<Rightarrow> real" where
  "objective_value p a = (case objective p of None \<Rightarrow> 0 | Some e \<Rightarrow> eval_expr a e)"

text \<open>The assignment \<open>soldiers = s\<close>, \<open>trains = t\<close>.\<close>

definition point :: "real \<Rightarrow> real \<Rightarrow> variable \<Rightarrow> real" where
  "point s t = (\<lambda>x. if x = soldiers then s else if x = trains then t else 0)"

section \<open>Right answers of a solver\<close>

text \<open>
  \<^verbatim>\<open>prob.solve()\<close> runs the library's default solver, which is not part of the repository.
  Its result is a status, with the values of the variables and the objective value when the
  status is optimal. A result is a right answer to a problem if it is optimal with a feasible
  assignment of exactly the problem's variables that no feasible assignment beats and with
  that assignment's objective value, or infeasible when no feasible assignment exists, or
  unbounded when feasible assignments beat every value.
\<close>

datatype solver_result =
  LpStatusOptimal "variable \<rightharpoonup> real" real | LpStatusInfeasible | LpStatusUnbounded

definition value_of :: "(variable \<rightharpoonup> real) \<Rightarrow> variable \<Rightarrow> real" where
  "value_of vals x = (case vals x of None \<Rightarrow> 0 | Some v \<Rightarrow> v)"

fun at_least_as_good :: "sense \<Rightarrow> real \<Rightarrow> real \<Rightarrow> bool" where
  "at_least_as_good Maximize v w = (w \<le> v)"
| "at_least_as_good Minimize v w = (v \<le> w)"

definition optimum :: "lp_problem \<Rightarrow> (variable \<Rightarrow> real) \<Rightarrow> bool" where
  "optimum p a =
     (feasible p a \<and>
      (\<forall>b. feasible p b \<longrightarrow>
         at_least_as_good (direction p) (objective_value p a) (objective_value p b)))"

definition infeasible :: "lp_problem \<Rightarrow> bool" where
  "infeasible p = (\<forall>a. \<not> feasible p a)"

definition unbounded :: "lp_problem \<Rightarrow> bool" where
  "unbounded p =
     ((\<exists>a. feasible p a) \<and>
      (\<forall>m. \<exists>a. feasible p a \<and> \<not> at_least_as_good (direction p) m (objective_value p a)))"

fun answers :: "lp_problem \<Rightarrow> solver_result \<Rightarrow> bool" where
  "answers p (LpStatusOptimal vals v) =
     (dom vals = set (variables p) \<and> optimum p (value_of vals) \<and>
      v = objective_value p (value_of vals))"
| "answers p LpStatusInfeasible = infeasible p"
| "answers p LpStatusUnbounded = unbounded p"

text \<open>
  The cell that solves: it calls the solver on \<open>prob\<close>, asserts that the status is optimal,
  and reports the values of \<open>soldiers\<close> and \<open>trains\<close>. The solver is a parameter.
\<close>

datatype error = AssertionError

definition solve_cell :: "(lp_problem \<Rightarrow> solver_result) \<Rightarrow> error + real list" where
  "solve_cell solver =
     (case solver prob of
        LpStatusOptimal vals v \<Rightarrow> Inr (map (value_of vals) [soldiers, trains])
      | LpStatusInfeasible \<Rightarrow> Inl AssertionError
      | LpStatusUnbounded \<Rightarrow> Inl AssertionError)"

section \<open>The solver core described by the specification\<close>

text \<open>
  The notebook contains no solver and no model builder of its own: it calls the external
  library. The definitions of this section follow the specification's description of a
  linear program solver core (data model, model builder, standard-form transformer,
  two-phase simplex engine and solution reporter); expressions are keyed by the variable's
  name.
\<close>

subsection \<open>Model builder\<close>

text \<open>Modelled from the spec: the Variable of the data model, with identity (name), lower
  bound (default 0), upper bound (\<open>None\<close> for \<open>+infinity\<close>) and domain tag.\<close>

record Variable =
  ident :: string
  lower :: real
  upper :: "real option"
  domain :: category

text \<open>Modelled from the spec: the Model of the data model, an ordered sequence of
  variables (insertion order is column order), an objective with a sense, and an ordered
  sequence of constraints.\<close>

record Model =
  model_variables :: "Variable list"
  model_objective :: "string linear_expression"
  model_sense :: sense
  model_constraints :: "string constraint list"

text \<open>Modelled from the spec: the state of the Model Builder, which holds the variables,
  the objective (absent until set) and the constraint rows.\<close>

record ModelBuilder =
  added_variables :: "Variable list"
  current_objective :: "(string linear_expression \<times> sense) option"
  added_constraints :: "string constraint list"

text \<open>Modelled from the spec: the errors raised during building.\<close>

datatype build_error = DuplicateVariable | UnknownVariable | EmptyObjective | EmptyModel

text \<open>Modelled from the spec: \<^verbatim>\<open>build_model()\<close> returns an empty builder.\<close>

definition build_model :: ModelBuilder where
  "build_model = \<lparr>added_variables = [], current_objective = None, added_constraints = []\<rparr>"

text \<open>Modelled from the spec: \<^verbatim>\<open>add_variable(name, lower, upper, domain)\<close> fails with
  \<open>DuplicateVariable\<close> if the name already exists; the variable's handle is its name.\<close>

definition add_variable ::
  "string \<Rightarrow> real \<Rightarrow> real option \<Rightarrow> category \<Rightarrow> ModelBuilder \<Rightarrow> build_error + ModelBuilder" where
  "add_variable n l u d b =
     (if n \<in> set (map ident (added_variables b)) then Inl DuplicateVariable
      else Inr (b\<lparr>added_variables :=
                  added_variables b @ [\<lparr>ident = n, lower = l, upper = u, domain = d\<rparr>]\<rparr>))"

text \<open>Modelled from the spec: \<^verbatim>\<open>set_objective(expression, sense)\<close> replaces any prior
  objective.\<close>

definition set_objective ::
  "string linear_expression \<Rightarrow> sense \<Rightarrow> ModelBuilder \<Rightarrow> ModelBuilder" where
  "set_objective e s b = b\<lparr>current_objective := Some (e, s)\<rparr>"

text \<open>Modelled from the spec: \<^verbatim>\<open>add_constraint(expression, operator, rhs)\<close> appends to
  the ordered constraint sequence and fails with \<open>UnknownVariable\<close> if the expression
  references a variable not yet added.\<close>

definition add_constraint ::
  "string linear_expression \<Rightarrow> relation \<Rightarrow> real \<Rightarrow> ModelBuilder \<Rightarrow> build_error + ModelBuilder" where
  "add_constraint e r k b =
     (if list_all (\<lambda>x. x \<in> set (map ident (added_variables b))) (map fst (terms e))
      then Inr (b\<lparr>added_constraints :=
                  added_constraints b @ [\<lparr>expression = e, operator = r, rhs = k\<rparr>]\<rparr>)
      else Inl UnknownVariable)"

text \<open>Modelled from the spec: \<^verbatim>\<open>build()\<close> fails with \<open>EmptyObjective\<close> if no objective
  is set, with \<open>EmptyModel\<close> if no variables exist, and otherwise returns the Model; the
  checks are made in the order in which the specification lists them.\<close>

definition build :: "ModelBuilder \<Rightarrow> build_error + Model" where
  "build b =
     (case current_objective b of
        None \<Rightarrow> Inl EmptyObjective
      | Some (e, s) \<Rightarrow>
          if added_variables b = [] then Inl EmptyModel
          else Inr \<lparr>model_variables = added_variables b, model_objective = e,
                    model_sense = s, model_constraints = added_constraints b\<rparr>)"

subsection \<open>Standard-form transformer\<close>

text \<open>Modelled from the spec: each variable \<open>x\<close> with lower bound \<open>l\<close> is replaced by
  \<open>x' + l\<close> and the constants are adjusted. A row before slack, surplus and artificial columns
  are added consists of the coefficients of the shifted variables in column order, the
  relation, and the adjusted right-hand side.\<close>

definition shifted_row ::
  "Variable list \<Rightarrow> string constraint \<Rightarrow> real list \<times> relation \<times> real" where
  "shifted_row vs c =
     (let a = map (\<lambda>v. coefficient (expression c) (ident v)) vs
      in (a, operator c,
          rhs c - constant_term (expression c) - sum_list (map2 (\<lambda>k v. k * lower v) a vs)))"

definition unit_row :: "nat \<Rightarrow> nat \<Rightarrow> real list" where
  "unit_row n i = map (\<lambda>j. if j = i then 1 else 0) [0..<n]"

text \<open>Modelled from the spec: an upper bound \<open>u\<close> is encoded as an added constraint
  \<open>x \<le> u\<close> (for the shifted variable, \<open>x' \<le> u - l\<close>); the added rows follow the model's
  constraints, in variable order.\<close>

definition bound_rows :: "Variable list \<Rightarrow> (real list \<times> relation \<times> real) list" where
  "bound_rows vs =
     concat (map (\<lambda>(i, v). case upper v of
                              None \<Rightarrow> []
                            | Some u \<Rightarrow> [(unit_row (length vs) i, LE, u - lower v)])
                 (enumerate 0 vs))"

definition raw_rows :: "Model \<Rightarrow> (real list \<times> relation \<times> real) list" where
  "raw_rows m =
     map (shifted_row (model_variables m)) (model_constraints m) @ bound_rows (model_variables m)"

text \<open>Modelled from the spec: every inequality gets one slack (coefficient \<open>+1\<close>, for
  \<open>\<le>\<close>) or surplus (coefficient \<open>-1\<close>, for \<open>\<ge>\<close>) column of its own; an equality gets
  none.\<close>

fun slack_coefficient :: "relation \<Rightarrow> real" where
  "slack_coefficient LE = 1"
| "slack_coefficient GE = - 1"
| "slack_coefficient EQ = 0"

definition has_slack :: "real list \<times> relation \<times> real \<Rightarrow> bool" where
  "has_slack r = (case r of (a, rel, b) \<Rightarrow> rel \<noteq> EQ)"

text \<open>Modelled from the spec: a row whose right-hand side is negative is multiplied by
  \<open>-1\<close>.\<close>

definition flip :: "real list \<times> relation \<times> real \<Rightarrow> real" where
  "flip r = (case r of (a, rel, b) \<Rightarrow> if b < 0 then - 1 else 1)"

text \<open>Modelled from the spec: every row that did not receive a slack column (an equality
  row or a \<open>\<ge>\<close> row, which has a surplus column) or that required the sign flip receives an
  artificial variable with coefficient \<open>+1\<close>.\<close>

definition needs_artificial :: "real list \<times> relation \<times> real \<Rightarrow> bool" where
  "needs_artificial r = (case r of (a, rel, b) \<Rightarrow> rel \<noteq> LE \<or> b < 0)"

definition count_before :: "('a \<Rightarrow> bool) \<Rightarrow> 'a list \<Rightarrow> nat \<Rightarrow> nat" where
  "count_before P xs i = length (filter P (take i xs))"

text \<open>Modelled from the spec: the StandardForm of the data model, a matrix of constraint
  coefficients (rows are the transformed constraints, columns all variables including
  slack, surplus and artificial ones), a right-hand-side vector without negative entries
  and an objective coefficient vector; with it the basis the engine starts from, the first
  artificial column, and the shift and negation the reporter has to undo. The columns are
  the structural ones, then the slack and surplus columns in row order, then the artificial
  columns in row order.\<close>

record StandardForm =
  matrix :: "real list list"
  rhs_vector :: "real list"
  objective_vector :: "real list"
  initial_basis :: "nat list"
  artificial_from :: nat
  objective_offset :: real
  negated :: bool

definition standard_row :: "(real list \<times> relation \<times> real) list \<Rightarrow> nat \<Rightarrow> real list" where
  "standard_row rs i =
     (let r = rs ! i; f = flip r;
          ns = length (filter has_slack rs); na = length (filter needs_artificial rs);
          si = count_before has_slack rs i; ai = count_before needs_artificial rs i
      in map (\<lambda>x. f * x) (fst r)
         @ map (\<lambda>j. if has_slack r \<and> j = si then f * slack_coefficient (fst (snd r)) else 0)
             [0..<ns]
         @ map (\<lambda>j. if needs_artificial r \<and> j = ai then 1 else 0) [0..<na])"

definition basic_column :: "nat \<Rightarrow> (real list \<times> relation \<times> real) list \<Rightarrow> nat \<Rightarrow> nat" where
  "basic_column n rs i =
     (if needs_artificial (rs ! i)
      then n + length (filter has_slack rs) + count_before needs_artificial rs i
      else n + count_before has_slack rs i)"

text \<open>Modelled from the spec: for a minimise-sense objective the objective vector is
  negated internally and the reported result is negated at the end.\<close>

definition sign_of :: "sense \<Rightarrow> real" where
  "sign_of s = (case s of Maximize \<Rightarrow> 1 | Minimize \<Rightarrow> - 1)"

definition transform :: "Model \<Rightarrow> StandardForm" where
  "transform m =
     (let vs = model_variables m; n = length vs; rs = raw_rows m;
          ns = length (filter has_slack rs); na = length (filter needs_artificial rs);
          g = sign_of (model_sense m);
          c = map (\<lambda>v. g * coefficient (model_objective m) (ident v)) vs
      in \<lparr>matrix = map (standard_row rs) [0..<length rs],
          rhs_vector = map (\<lambda>r. flip r * snd (snd r)) rs,
          objective_vector = c @ replicate (ns + na) 0,
          initial_basis = map (basic_column n rs) [0..<length rs],
          artificial_from = n + ns,
          objective_offset =
            g * constant_term (model_objective m) + sum_list (map2 (\<lambda>k v. k * lower v) c vs),
          negated = (model_sense m = Minimize)\<rparr>)"

subsection \<open>Simplex engine\<close>

text \<open>Modelled from the spec: the numerical tolerance \<open>1e-9\<close>.\<close>

definition tolerance :: real where
  "tolerance = 1 / 10 ^ 9"

text \<open>Modelled from the spec: the simplex tableau, with the reduced cost of every
  column, the current objective value, and for every row its coefficients, its right-hand
  side and the column of its basic variable (the basis mapping).\<close>

record tableau =
  reduced_costs :: "real list"
  objective_now :: real
  body :: "(real list \<times> real \<times> nat) list"

text \<open>Modelled from the spec: the entering column is the column with the most negative
  reduced cost among the non-basic columns, ties broken by the lowest column index; there is
  none if all reduced costs are at least \<open>-tolerance\<close>.\<close>

definition entering_column :: "tableau \<Rightarrow> nat option" where
  "entering_column t =
     (let r = reduced_costs t; basics = map (\<lambda>row. snd (snd row)) (body t)
      in case filter (\<lambda>j. j \<notin> set basics \<and> r ! j < - tolerance) [0..<length r] of
           [] \<Rightarrow> None
         | j # js \<Rightarrow> Some (fold (\<lambda>k best. if r ! k < r ! best then k else best) js j))"

definition ratio :: "tableau \<Rightarrow> nat \<Rightarrow> nat \<Rightarrow> real" where
  "ratio t j i = (case body t ! i of (a, b, v) \<Rightarrow> b / (a ! j))"

definition basic_of :: "tableau \<Rightarrow> nat \<Rightarrow> nat" where
  "basic_of t i = snd (snd (body t ! i))"

text \<open>Modelled from the spec: the leaving row is chosen by the minimum ratio test, the
  smallest ratio of right-hand side to positive pivot-column entry, ties broken by the lowest
  basic-variable index; there is none if the entering column has no positive entry in any
  row.\<close>

definition leaving_row :: "tableau \<Rightarrow> nat \<Rightarrow> nat option" where
  "leaving_row t j =
     (case filter (\<lambda>i. 0 < fst (body t ! i) ! j) [0..<length (body t)] of
        [] \<Rightarrow> None
      | i # is \<Rightarrow>
          Some (fold (\<lambda>k best.
                  if ratio t j k < ratio t j best
                     \<or> (ratio t j k = ratio t j best \<and> basic_of t k < basic_of t best)
                  then k else best) is i))"

text \<open>Modelled from the spec: the pivot is the Gauss-Jordan elimination that makes the
  pivot entry 1 and all other entries of that column 0, and updates the basis mapping.\<close>

definition eliminate ::
  "nat \<Rightarrow> real list \<Rightarrow> real \<Rightarrow> real list \<times> real \<Rightarrow> real list \<times> real" where
  "eliminate j prow prhs r =
     (case r of (a, b) \<Rightarrow> (map2 (\<lambda>x y. x - (a ! j) * y) a prow, b - (a ! j) * prhs))"

definition pivot :: "tableau \<Rightarrow> nat \<Rightarrow> nat \<Rightarrow> tableau" where
  "pivot t p j =
     (case body t ! p of (pa, pb, pv) \<Rightarrow>
        let prow = map (\<lambda>x. x / (pa ! j)) pa; prhs = pb / (pa ! j);
            z = eliminate j prow prhs (reduced_costs t, objective_now t)
        in \<lparr>reduced_costs = fst z, objective_now = snd z,
            body = map (\<lambda>(i, (a, b, v)).
                          if i = p then (prow, prhs, j)
                          else (case eliminate j prow prhs (a, b) of (a', b') \<Rightarrow> (a', b', v)))
                       (enumerate 0 (body t))\<rparr>)"

text \<open>Modelled from the spec: simplex pivoting repeats until all reduced costs are at
  least \<open>-tolerance\<close> (the optimum), or the entering column has no positive entry (the
  objective can grow without bound), or the iteration cap is exceeded.\<close>

datatype outcome = AtOptimum tableau | NoLeavingRow | LimitExceeded

fun iterate :: "nat \<Rightarrow> tableau \<Rightarrow> outcome" where
  "iterate 0 t =
     (case entering_column t of
        None \<Rightarrow> AtOptimum t
      | Some j \<Rightarrow> (case leaving_row t j of None \<Rightarrow> NoLeavingRow | Some p \<Rightarrow> LimitExceeded))"
| "iterate (Suc n) t =
     (case entering_column t of
        None \<Rightarrow> AtOptimum t
      | Some j \<Rightarrow>
          (case leaving_row t j of
             None \<Rightarrow> NoLeavingRow
           | Some p \<Rightarrow> iterate n (pivot t p j)))"

text \<open>Modelled from the spec: the recommended iteration cap, 10 times rows plus columns,
  applied to each phase.\<close>

definition iteration_cap :: "StandardForm \<Rightarrow> nat" where
  "iteration_cap sf = 10 * (length (matrix sf) + length (objective_vector sf))"

text \<open>The tableau of a basis for an objective vector: the reduced cost of a column is the
  basic costs times the column minus the cost of the column; a basic column outside the
  objective vector (a dropped artificial column) costs 0.\<close>

definition cost_of :: "real list \<Rightarrow> nat \<Rightarrow> real" where
  "cost_of c j = (if j < length c then c ! j else 0)"

definition price :: "real list \<Rightarrow> (real list \<times> real \<times> nat) list \<Rightarrow> tableau" where
  "price c rows =
     \<lparr>reduced_costs =
        map (\<lambda>j. sum_list (map (\<lambda>(a, b, v). cost_of c v * a ! j) rows) - c ! j) [0..<length c],
      objective_now = sum_list (map (\<lambda>(a, b, v). cost_of c v * b) rows),
      body = rows\<rparr>"

definition initial_rows :: "StandardForm \<Rightarrow> (real list \<times> real \<times> nat) list" where
  "initial_rows sf = zip (matrix sf) (zip (rhs_vector sf) (initial_basis sf))"

text \<open>Modelled from the spec: Phase 1 is the initial state whenever an artificial
  variable exists; its objective is to minimise the sum of the artificial variables, which
  in the maximise form of the engine is cost \<open>-1\<close> on every artificial column, so that the
  sum of the artificial variables is the negated objective value.\<close>

definition has_artificial :: "StandardForm \<Rightarrow> bool" where
  "has_artificial sf = (artificial_from sf < length (objective_vector sf))"

definition phase1_costs :: "StandardForm \<Rightarrow> real list" where
  "phase1_costs sf =
     map (\<lambda>j. if artificial_from sf \<le> j then - 1 else 0) [0..<length (objective_vector sf)]"

definition phase1 :: "StandardForm \<Rightarrow> outcome" where
  "phase1 sf = iterate (iteration_cap sf) (price (phase1_costs sf) (initial_rows sf))"

definition artificial_sum :: "tableau \<Rightarrow> real" where
  "artificial_sum t = - objective_now t"

text \<open>Modelled from the spec: the SolverResult of the data model, a status with the
  mapping from variable identity to value and the objective value present only if optimal.
  An optimal result is tagged: the continuous optimum of a model with integer variables is a
  relaxation bound unless it is integral within tolerance.\<close>

datatype solution_kind = Exact | RelaxationBound

datatype SolverResult =
  Optimal "(string \<times> real) list" real solution_kind | Infeasible | Unbounded

datatype solve_error = IterationLimitExceeded

subsection \<open>Solution reporter\<close>

definition basic_value :: "tableau \<Rightarrow> nat \<Rightarrow> real" where
  "basic_value t j = sum_list (map (\<lambda>(a, b, v). if v = j then b else 0) (body t))"

definition integral_within :: "real \<Rightarrow> bool" where
  "integral_within x = (\<bar>x - of_int (round x)\<bar> \<le> tolerance)"

text \<open>Modelled from the spec: the reporter maps the standard-form column values back
  through the shift and the negation to the original variables.\<close>

definition report :: "Model \<Rightarrow> StandardForm \<Rightarrow> tableau \<Rightarrow> SolverResult" where
  "report m sf t =
     (let vs = model_variables m;
          xs = map (\<lambda>(j, v). basic_value t j + lower v) (enumerate 0 vs);
          z = objective_now t + objective_offset sf
      in Optimal (zip (map ident vs) xs) (if negated sf then - z else z)
           (if list_all (\<lambda>(v, x). domain v = Continuous \<or> integral_within x) (zip vs xs)
            then Exact else RelaxationBound))"

text \<open>Modelled from the spec: Phase 2 drops the artificial columns and optimises the
  true (possibly negated) objective from the basis it is given.\<close>

definition drop_artificial ::
  "StandardForm \<Rightarrow> (real list \<times> real \<times> nat) list \<Rightarrow> (real list \<times> real \<times> nat) list" where
  "drop_artificial sf rows = map (\<lambda>(a, b, v). (take (artificial_from sf) a, b, v)) rows"

definition phase2 ::
  "Model \<Rightarrow> StandardForm \<Rightarrow> (real list \<times> real \<times> nat) list \<Rightarrow> solve_error + SolverResult" where
  "phase2 m sf rows =
     (case iterate (iteration_cap sf)
             (price (take (artificial_from sf) (objective_vector sf)) (drop_artificial sf rows)) of
        AtOptimum t \<Rightarrow> Inr (report m sf t)
      | NoLeavingRow \<Rightarrow> Inr Unbounded
      | LimitExceeded \<Rightarrow> Inl IterationLimitExceeded)"

text \<open>Modelled from the spec: \<^verbatim>\<open>solve(model)\<close>. If the Phase-1 optimal value exceeds
  the tolerance the result is Infeasible; otherwise Phase 2 starts from the final basis of
  Phase 1.\<close>

definition solve :: "Model \<Rightarrow> solve_error + SolverResult" where
  "solve m =
     (let sf = transform m
      in if has_artificial sf
         then (case phase1 sf of
                 AtOptimum t \<Rightarrow>
                   if tolerance < artificial_sum t then Inr Infeasible
                   else phase2 m sf (body t)
               | NoLeavingRow \<Rightarrow> Inr Unbounded
               | LimitExceeded \<Rightarrow> Inl IterationLimitExceeded)
         else phase2 m sf (initial_rows sf))"

subsection \<open>The example models of the specification\<close>

text \<open>Modelled from the spec: a model with the constraints \<open>x \<le> 1\<close> and \<open>x \<ge> 2\<close> for
  \<open>x \<ge> 0\<close>; the objective, the sense and the domain are left open.\<close>

definition two_bounds :: "string linear_expression \<Rightarrow> sense \<Rightarrow> category \<Rightarrow> Model" where
  "two_bounds e s d =
     \<lparr>model_variables = [\<lparr>ident = ''x'', lower = 0, upper = None, domain = d\<rparr>],
      model_objective = e, model_sense = s,
      model_constraints =
        [\<lparr>expression = var_expr ''x'', operator = LE, rhs = 1\<rparr>,
         \<lparr>expression = var_expr ''x'', operator = GE, rhs = 2\<rparr>]\<rparr>"

text \<open>Modelled from the spec: the literal example, with the integer variables \<open>soldiers\<close>
  and \<open>trains\<close> (lower bound 0), the objective maximise \<open>3*soldiers + 2*trains\<close> and the
  constraints \<open>soldiers + trains \<le> 80\<close>, \<open>2*soldiers + trains \<le> 100\<close>, \<open>soldiers \<le> 40\<close>.\<close>

definition literal_example :: Model where
  "literal_example =
     \<lparr>model_variables =
        [\<lparr>ident = ''soldiers'', lower = 0, upper = None, domain = Integer\<rparr>,
         \<lparr>ident = ''trains'', lower = 0, upper = None, domain = Integer\<rparr>],
      model_objective =
        add_expr (scale 3 (var_expr ''soldiers'')) (scale 2 (var_expr ''trains'')),
      model_sense = Maximize,
      model_constraints =
        [\<lparr>expression = add_expr (var_expr ''soldiers'') (var_expr ''trains''),
          operator = LE, rhs = 80\<rparr>,
         \<lparr>expression = add_expr (scale 2 (var_expr ''soldiers'')) (var_expr ''trains''),
          operator = LE, rhs = 100\<rparr>,
         \<lparr>expression = var_expr ''soldiers'', operator = LE, rhs = 40\<rparr>]\<rparr>"

text \<open>A model with an equality whose artificial variable is still basic, at level 0, when
  Phase 1 ends: \<open>-x = 0\<close> for \<open>0 \<le> x \<le> 5\<close>, maximise \<open>x\<close>.\<close>

definition pinned_example :: Model where
  "pinned_example =
     \<lparr>model_variables = [\<lparr>ident = ''x'', lower = 0, upper = Some 5, domain = Continuous\<rparr>],
      model_objective = var_expr ''x'', model_sense = Maximize,
      model_constraints = [\<lparr>expression = scale (- 1) (var_expr ''x''), operator = EQ, rhs = 0\<rparr>]\<rparr>"

subsection \<open>Models without constraints\<close>

text \<open>Modelled from the spec: the invariant of a Variable, lower bound \<open>\<le>\<close> upper bound.\<close>

definition well_bounded :: "Variable \<Rightarrow> bool" where
  "well_bounded v = (case upper v of None \<Rightarrow> True | Some u \<Rightarrow> lower v \<le> u)"

text \<open>The objective coefficient of a variable in the maximise form of the engine: the
  coefficient itself for a maximise-sense objective, its negation for a minimise-sense one.\<close>

definition gain :: "Model \<Rightarrow> Variable \<Rightarrow> real" where
  "gain m v = sign_of (model_sense m) * coefficient (model_objective m) (ident v)"

text \<open>The bound at which a variable of a model without constraints ends: the upper bound if
  there is one and the coefficient improves the objective by more than the tolerance, the lower
  bound otherwise.\<close>

definition extremum :: "Model \<Rightarrow> Variable \<Rightarrow> real" where
  "extremum m v =
     (case upper v of
        None \<Rightarrow> lower v
      | Some u \<Rightarrow> if tolerance < gain m v then u else lower v)"

text \<open>The meaning of a Model: an assignment of the variables is admissible if it respects the
  bounds and the constraints, and the objective improves without bound if admissible
  assignments reach every value in the direction of optimisation.\<close>

definition admissible :: "Model \<Rightarrow> (string \<Rightarrow> real) \<Rightarrow> bool" where
  "admissible m a =
     (list_all (\<lambda>v. lower v \<le> a (ident v)
                    \<and> (case upper v of None \<Rightarrow> True | Some u \<Rightarrow> a (ident v) \<le> u))
        (model_variables m)
      \<and> list_all (satisfies a) (model_constraints m))"

definition improves_without_bound :: "Model \<Rightarrow> bool" where
  "improves_without_bound m =
     (\<forall>k. \<exists>a. admissible m a \<and> k < sign_of (model_sense m) * eval_expr a (model_objective m))"

text \<open>Modelled from the spec: maximise \<open>k * x\<close> for \<open>x \<ge> 0\<close> subject to no constraint, with
  an optional upper bound on \<open>x\<close>.\<close>

definition maximize_x :: "real \<Rightarrow> real option \<Rightarrow> Model" where
  "maximize_x k u =
     \<lparr>model_variables = [\<lparr>ident = ''x'', lower = 0, upper = u, domain = Continuous\<rparr>],
      model_objective = scale k (var_expr ''x''), model_sense = Maximize,
      model_constraints = []\<rparr>"

text \<open>A model whose only constraint pins its variable to 0 from above: maximise \<open>x\<close> for
  \<open>x \<ge> 0\<close> subject to \<open>-x \<ge> 0\<close>.\<close>

definition held_at_zero :: Model where
  "held_at_zero =
     \<lparr>model_variables = [\<lparr>ident = ''x'', lower = 0, upper = None, domain = Continuous\<rparr>],
      model_objective = var_expr ''x'', model_sense = Maximize,
      model_constraints = [\<lparr>expression = scale (- 1) (var_expr ''x''), operator = GE, rhs = 0\<rparr>]\<rparr>"

text \<open>The columns of the variables that have an upper bound, in column order; each contributes
  one added row.\<close>

definition bounded_columns :: "Variable list \<Rightarrow> nat list" where
  "bounded_columns vs = filter (\<lambda>i. upper (vs ! i) \<noteq> None) [0..<length vs]"

text \<open>The right-hand side of the added row of a variable: the distance from its lower to its
  upper bound.\<close>

definition room :: "Variable list \<Rightarrow> nat \<Rightarrow> real" where
  "room vs i = (case upper (vs ! i) of None \<Rightarrow> 0 | Some u \<Rightarrow> u - lower (vs ! i))"

text \<open>The tableaux that the engine passes through on a model without constraints, whose rows
  are the added upper-bound rows: \<open>U\<close> lists the bounded columns, \<open>b\<close> the right-hand sides,
  \<open>c\<close> the objective coefficients, and \<open>S\<close> the rows whose variable has entered the
  basis.\<close>

definition bound_tableau ::
  "nat \<Rightarrow> (nat \<Rightarrow> real) \<Rightarrow> nat list \<Rightarrow> (nat \<Rightarrow> real) \<Rightarrow> nat set \<Rightarrow> tableau" where
  "bound_tableau n c U b S =
     \<lparr>reduced_costs =
        map (\<lambda>j. if j < n then (if j \<in> (!) U ` S then 0 else - c j)
                  else (if j - n \<in> S then c (U ! (j - n)) else 0))
          [0..<n + length U],
      objective_now = sum_list (map (\<lambda>i. if i \<in> S then c (U ! i) * b i else 0) [0..<length U]),
      body =
        map (\<lambda>i. (unit_row n (U ! i) @ unit_row (length U) i, b i,
                   if i \<in> S then U ! i else n + i))
          [0..<length U]\<rparr>"

section \<open>Normal forms of the notebook's expressions\<close>

lemma soldiers_neq_trains: "soldiers \<noteq> trains" "trains \<noteq> soldiers"
  by (simp_all add: soldiers_def trains_def)

lemma raw_material_costs_terms:
  "raw_material_costs = \<lparr>terms = [(soldiers, 10), (trains, 9)], constant_term = 0\<rparr>"
  by (simp add: raw_material_costs_def add_expr_def scale_def var_expr_def soldiers_neq_trains)

lemma variable_costs_terms:
  "variable_costs = \<lparr>terms = [(soldiers, 14), (trains, 10)], constant_term = 0\<rparr>"
  by (simp add: variable_costs_def add_expr_def scale_def var_expr_def soldiers_neq_trains)

lemma revenues_terms:
  "revenues = \<lparr>terms = [(soldiers, 27), (trains, 21)], constant_term = 0\<rparr>"
  by (simp add: revenues_def add_expr_def scale_def var_expr_def soldiers_neq_trains)

lemma profit_terms:
  "profit = \<lparr>terms = [(soldiers, 3), (trains, 2)], constant_term = 0\<rparr>"
  by (simp add: profit_def sub_expr_def raw_material_costs_terms variable_costs_terms
      revenues_terms add_expr_def scale_def soldiers_neq_trains)

lemma literal_objective_terms:
  "literal_objective = \<lparr>terms = [(soldiers, 3), (trains, 2)], constant_term = 0\<rparr>"
  by (simp add: literal_objective_def add_expr_def scale_def var_expr_def soldiers_neq_trains)

lemma carpentry_hours_terms:
  "carpentry_hours = \<lparr>terms = [(soldiers, 1), (trains, 1)], constant_term = 0\<rparr>"
  by (simp add: carpentry_hours_def add_expr_def var_expr_def soldiers_neq_trains)

lemma finishing_hours_terms:
  "finishing_hours = \<lparr>terms = [(soldiers, 2), (trains, 1)], constant_term = 0\<rparr>"
  by (simp add: finishing_hours_def add_expr_def scale_def var_expr_def soldiers_neq_trains)

lemma prob_unfolded:
  "prob =
     \<lparr>title = ''Giapetto'', direction = Maximize,
      objective = Some \<lparr>terms = [(soldiers, 3), (trains, 2)], constant_term = 0\<rparr>,
      constraints =
        [\<lparr>expression = \<lparr>terms = [(soldiers, 1), (trains, 1)], constant_term = 0\<rparr>,
          operator = LE, rhs = 80\<rparr>,
         \<lparr>expression = \<lparr>terms = [(soldiers, 2), (trains, 1)], constant_term = 0\<rparr>,
          operator = LE, rhs = 100\<rparr>,
         \<lparr>expression = \<lparr>terms = [(soldiers, 1)], constant_term = 0\<rparr>,
          operator = LE, rhs = 40\<rparr>]\<rparr>"
  by (simp add: prob_def LpProblem_def le_constraint_def profit_terms carpentry_hours_terms
      finishing_hours_terms var_expr_def)

section \<open>The objective of the notebook is the literal objective\<close>

text \<open>
  Claim C2. The objective the notebook builds, revenues \<open>27*soldiers + 21*trains\<close> minus
  the sum of the raw-material costs \<open>10*soldiers + 9*trains\<close> and the variable costs
  \<open>14*soldiers + 10*trains\<close>, is the linear expression \<open>3*soldiers + 2*trains\<close> with
  constant term 0: the same coefficient for every variable, the same constant, and in fact
  the same table; and the problem the notebook accumulates is the literal example model.
\<close>

theorem profit_is_literal_objective:
  "profit = literal_objective
   \<and> coefficient profit soldiers = 3
   \<and> coefficient profit trains = 2
   \<and> (\<forall>x. coefficient profit x = coefficient literal_objective x)
   \<and> constant_term profit = 0
   \<and> prob = literal_model"
  by (simp add: profit_terms literal_objective_terms coefficient_def soldiers_neq_trains
      prob_unfolded literal_model_def le_constraint_def add_expr_def scale_def var_expr_def)

section \<open>The feasible region of the notebook's model\<close>

lemma variable_fields:
  "lowBound soldiers = Some 0" "upBound soldiers = None" "cat soldiers = Integer"
  "lowBound trains = Some 0" "upBound trains = None" "cat trains = Integer"
  by (simp_all add: soldiers_def trains_def)

lemma prob_fields:
  "objective prob = Some \<lparr>terms = [(soldiers, 3), (trains, 2)], constant_term = 0\<rparr>"
  "constraints prob =
     [\<lparr>expression = \<lparr>terms = [(soldiers, 1), (trains, 1)], constant_term = 0\<rparr>,
       operator = LE, rhs = 80\<rparr>,
      \<lparr>expression = \<lparr>terms = [(soldiers, 2), (trains, 1)], constant_term = 0\<rparr>,
       operator = LE, rhs = 100\<rparr>,
      \<lparr>expression = \<lparr>terms = [(soldiers, 1)], constant_term = 0\<rparr>,
       operator = LE, rhs = 40\<rparr>]"
  "direction prob = Maximize"
  by (simp_all add: prob_unfolded)

lemma variables_prob: "variables prob = [soldiers, trains]"
  by (simp add: variables_def expressions_def prob_fields soldiers_neq_trains)

lemma objective_value_prob: "objective_value prob a = 3 * a soldiers + 2 * a trains"
  by (simp add: objective_value_def prob_fields eval_expr_def)

lemma lp_feasible_prob:
  "lp_feasible prob a \<longleftrightarrow>
     0 \<le> a soldiers \<and> 0 \<le> a trains \<and> a soldiers + a trains \<le> 80 \<and>
     2 * a soldiers + a trains \<le> 100 \<and> a soldiers \<le> 40"
  by (auto simp add: lp_feasible_def variables_prob within_bounds_def satisfies_def
      eval_expr_def prob_fields variable_fields)

lemma point_simps: "point s t soldiers = s" "point s t trains = t"
  by (simp_all add: point_def soldiers_neq_trains)

lemma lp_bound:
  assumes "lp_feasible prob a"
  shows "objective_value prob a \<le> 180"
    and "objective_value prob a = 180 \<Longrightarrow> a soldiers = 20 \<and> a trains = 60"
  using assms unfolding lp_feasible_prob objective_value_prob by linarith+

text \<open>
  Claim C4. The reported optimum is unique. A real pair \<open>(s, t)\<close> is feasible for the
  relaxation of the notebook's model exactly when \<open>s \<ge> 0\<close>, \<open>t \<ge> 0\<close>, \<open>s + t \<le> 80\<close>,
  \<open>2s + t \<le> 100\<close> and \<open>s \<le> 40\<close>; the objective there is \<open>3s + 2t\<close>; on every such pair
  it is at most 180, and it is 180 only at \<open>(20, 60)\<close>.
\<close>

theorem giapetto_optimum_unique:
  "(lp_feasible prob (point s t) \<longleftrightarrow>
      0 \<le> s \<and> 0 \<le> t \<and> s + t \<le> 80 \<and> 2 * s + t \<le> 100 \<and> s \<le> 40)
   \<and> objective_value prob (point s t) = 3 * s + 2 * t
   \<and> (lp_feasible prob (point s t) \<longrightarrow>
        objective_value prob (point s t) \<le> 180
        \<and> (objective_value prob (point s t) = 180 \<longleftrightarrow> s = 20 \<and> t = 60))"
  using lp_bound [of "point s t"]
  by (auto simp add: lp_feasible_prob objective_value_prob point_simps)

theorem giapetto_optimum_unique_witness:
  "lp_feasible prob (point 20 60) \<and> objective_value prob (point 20 60) = 180
   \<and> lp_feasible prob (point 40 20) \<and> objective_value prob (point 40 20) < 180"
  using giapetto_optimum_unique [of 20 60] giapetto_optimum_unique [of 40 20] by simp

text \<open>
  Claim C10. At the reported optimum \<open>(soldiers, trains) = (20, 60)\<close> the two labour
  constraints are binding: the carpentry hours \<open>20 + 60 = 80\<close> and the finishing hours
  \<open>2*20 + 60 = 100\<close> are used up (slack 0), while the demand constraint is strictly slack
  (\<open>20 < 40\<close>, slack 20).
\<close>

theorem binding_constraints_at_optimum:
  "map (slack (point 20 60)) (constraints prob) = [0, 0, 20]
   \<and> eval_expr (point 20 60) carpentry_hours = 80
   \<and> eval_expr (point 20 60) finishing_hours = 100
   \<and> eval_expr (point 20 60) (var_expr soldiers) = 20
   \<and> eval_expr (point 20 60) (var_expr soldiers) < 40"
  by (simp add: slack_def eval_expr_def prob_fields point_simps carpentry_hours_terms
      finishing_hours_terms var_expr_def)

text \<open>
  The round trip at the reported optimum: substituting \<open>(soldiers, trains) = (20, 60)\<close> back
  into the three constraints of the notebook's model satisfies each of them, exactly and hence
  within the tolerance \<open>1e-6\<close>, and substituting into the objective gives 180.
\<close>

theorem round_trip_at_optimum:
  "list_all (satisfies (point 20 60)) (constraints prob)
   \<and> list_all (satisfies_within (1 / 10 ^ 6) (point 20 60)) (constraints prob)
   \<and> objective_value prob (point 20 60) = 180
   \<and> \<bar>objective_value prob (point 20 60) - 180\<bar> \<le> 1 / 10 ^ 6"
  by (simp add: satisfies_def satisfies_within_def eval_expr_def prob_fields point_simps
      objective_value_prob)

section \<open>The answer to the notebook's model\<close>

lemma feasible_prob:
  "feasible prob a \<longleftrightarrow> lp_feasible prob a \<and> a soldiers \<in> \<int> \<and> a trains \<in> \<int>"
  by (simp add: feasible_def variables_prob integral_def variable_fields)

lemma feasible_origin: "feasible prob (point 0 0)"
  by (simp add: feasible_prob lp_feasible_prob point_simps)

lemma feasible_20_60: "feasible prob (point 20 60)"
  by (simp add: feasible_prob lp_feasible_prob point_simps)

lemma value_of_20_60: "value_of [soldiers \<mapsto> 20, trains \<mapsto> 60] = point 20 60"
  by (rule ext) (simp add: value_of_def point_def soldiers_neq_trains)

lemma optimum_prob: "optimum prob a \<longleftrightarrow> feasible prob a \<and> a soldiers = 20 \<and> a trains = 60"
proof
  assume opt: "optimum prob a"
  then have f: "feasible prob a" and lp: "lp_feasible prob a"
    by (simp_all add: optimum_def feasible_def)
  from opt feasible_20_60 have "objective_value prob (point 20 60) \<le> objective_value prob a"
    by (auto simp add: optimum_def prob_fields)
  then have "180 \<le> objective_value prob a"
    by (simp add: objective_value_prob point_simps)
  with lp_bound [OF lp] have "a soldiers = 20 \<and> a trains = 60"
    by simp
  with f show "feasible prob a \<and> a soldiers = 20 \<and> a trains = 60"
    by simp
next
  assume a: "feasible prob a \<and> a soldiers = 20 \<and> a trains = 60"
  have "objective_value prob b \<le> objective_value prob a" if "feasible prob b" for b
  proof -
    from that have "lp_feasible prob b" by (simp add: feasible_def)
    from lp_bound(1) [OF this] a show ?thesis
      by (simp add: objective_value_prob)
  qed
  with a show "optimum prob a"
    by (simp add: optimum_def prob_fields)
qed

lemma right_answer: "answers prob (LpStatusOptimal [soldiers \<mapsto> 20, trains \<mapsto> 60] 180)"
  using feasible_20_60
  by (auto simp add: optimum_prob value_of_20_60 point_simps variables_prob
      objective_value_prob)

lemma not_infeasible: "\<not> infeasible prob"
  using feasible_origin by (auto simp add: infeasible_def)

lemma not_unbounded: "\<not> unbounded prob"
proof
  assume "unbounded prob"
  then obtain a where f: "feasible prob a" and "\<not> objective_value prob a \<le> 180"
    by (auto simp add: unbounded_def prob_fields)
  moreover from f have "lp_feasible prob a" by (simp add: feasible_def)
  ultimately show False using lp_bound(1) by blast
qed

lemma only_right_answer:
  assumes "answers prob r"
  shows "r = LpStatusOptimal [soldiers \<mapsto> 20, trains \<mapsto> 60] 180"
proof (cases r)
  case (LpStatusOptimal vals v)
  with assms have d: "dom vals = {soldiers, trains}"
    and o: "optimum prob (value_of vals)"
    and v: "v = objective_value prob (value_of vals)"
    by (simp_all add: variables_prob)
  from o have s: "value_of vals soldiers = 20" and t: "value_of vals trains = 60"
    by (simp_all add: optimum_prob)
  from d obtain y where y: "vals soldiers = Some y" by auto
  from d obtain z where z: "vals trains = Some z" by auto
  from y s have ys: "vals soldiers = Some 20" by (simp add: value_of_def)
  from z t have zs: "vals trains = Some 60" by (simp add: value_of_def)
  have "vals x = [soldiers \<mapsto> 20, trains \<mapsto> 60] x" for x
  proof (cases "x = soldiers \<or> x = trains")
    case True
    then show ?thesis using ys zs soldiers_neq_trains by auto
  next
    case False
    with d have "x \<notin> dom vals" by simp
    with False show ?thesis by (simp add: domIff)
  qed
  then have "vals = [soldiers \<mapsto> 20, trains \<mapsto> 60]" by (rule ext)
  moreover from v s t have "v = 180" by (simp add: objective_value_prob)
  ultimately show ?thesis using LpStatusOptimal by simp
next
  case LpStatusInfeasible
  with assms not_infeasible show ?thesis by simp
next
  case LpStatusUnbounded
  with assms not_unbounded show ?thesis by simp
qed

text \<open>
  Claim C5. The notebook's assertion that the solve status is Optimal never fails on the
  Giapetto model: the point \<open>(0, 0)\<close> satisfies every constraint (and the bounds and
  integrality), the objective is bounded above by 180 on the feasible region, so neither
  Infeasible nor Unbounded is a right answer, and the cell run with a solver that answers
  rightly does not raise the assertion error.
\<close>

theorem assertion_never_fails:
  "list_all (satisfies (point 0 0)) (constraints prob)
   \<and> feasible prob (point 0 0)
   \<and> (\<forall>a. lp_feasible prob a \<longrightarrow> objective_value prob a \<le> 180)
   \<and> \<not> answers prob LpStatusInfeasible
   \<and> \<not> answers prob LpStatusUnbounded
   \<and> (answers prob (solver prob) \<longrightarrow> solve_cell solver \<noteq> Inl AssertionError)"
proof (intro conjI allI impI)
  show "list_all (satisfies (point 0 0)) (constraints prob)"
    using feasible_origin by (simp add: feasible_def lp_feasible_def)
  show "feasible prob (point 0 0)"
    by (rule feasible_origin)
  show "objective_value prob a \<le> 180" if "lp_feasible prob a" for a
    using that by (rule lp_bound(1))
  show "\<not> answers prob LpStatusInfeasible"
    using not_infeasible by simp
  show "\<not> answers prob LpStatusUnbounded"
    using not_unbounded by simp
  show "solve_cell solver \<noteq> Inl AssertionError" if "answers prob (solver prob)"
    using only_right_answer [OF that] by (simp add: solve_cell_def)
qed

theorem assertion_never_fails_witness:
  "answers prob (LpStatusOptimal [soldiers \<mapsto> 20, trains \<mapsto> 60] 180)
   \<and> solve_cell (\<lambda>p. LpStatusOptimal [soldiers \<mapsto> 20, trains \<mapsto> 60] 180) \<noteq> Inl AssertionError
   \<and> lp_feasible prob (point 40 20) \<and> objective_value prob (point 40 20) \<le> 180"
proof -
  let ?solver = "\<lambda>p::lp_problem. LpStatusOptimal [soldiers \<mapsto> 20, trains \<mapsto> 60] 180"
  note t = assertion_never_fails [of ?solver]
  have r: "answers prob (?solver prob)"
    using right_answer by simp
  have l: "lp_feasible prob (point 40 20)"
    by (simp add: lp_feasible_prob point_simps)
  from t have "\<forall>a. lp_feasible prob a \<longrightarrow> objective_value prob a \<le> 180"
    by (elim conjE)
  with l have b: "objective_value prob (point 40 20) \<le> 180"
    by blast
  from t have "answers prob (?solver prob) \<longrightarrow> solve_cell ?solver \<noteq> Inl AssertionError"
    by (elim conjE)
  with r have "solve_cell ?solver \<noteq> Inl AssertionError"
    by blast
  with r l b show ?thesis
    by blast
qed

section \<open>The model builder of the specification\<close>

lemma add_variable_cases:
  "add_variable n l u d b = Inl DuplicateVariable \<longleftrightarrow> n \<in> ident ` set (added_variables b)"
  "add_variable n l u d b \<noteq> Inl UnknownVariable"
  "add_variable n l u d b \<noteq> Inl EmptyObjective"
  "add_variable n l u d b \<noteq> Inl EmptyModel"
  by (simp_all add: add_variable_def)

lemma add_variable_success:
  "add_variable n l u d b = Inr b' \<longleftrightarrow>
     n \<notin> ident ` set (added_variables b) \<and>
     b' = b\<lparr>added_variables :=
             added_variables b @ [\<lparr>ident = n, lower = l, upper = u, domain = d\<rparr>]\<rparr>"
  by (auto simp add: add_variable_def)

lemma add_constraint_cases:
  "add_constraint e r k b = Inl UnknownVariable \<longleftrightarrow>
     \<not> fst ` set (terms e) \<subseteq> ident ` set (added_variables b)"
  "add_constraint e r k b \<noteq> Inl DuplicateVariable"
  "add_constraint e r k b \<noteq> Inl EmptyObjective"
  "add_constraint e r k b \<noteq> Inl EmptyModel"
  by (auto simp add: add_constraint_def list_all_iff)

lemma add_constraint_success:
  "add_constraint e r k b = Inr b' \<longleftrightarrow>
     fst ` set (terms e) \<subseteq> ident ` set (added_variables b) \<and>
     b' = b\<lparr>added_constraints :=
             added_constraints b @ [\<lparr>expression = e, operator = r, rhs = k\<rparr>]\<rparr>"
  by (auto simp add: add_constraint_def list_all_iff)

lemma build_cases:
  "build b = Inl EmptyObjective \<longleftrightarrow> current_objective b = None"
  "build b = Inl EmptyModel \<longleftrightarrow> current_objective b \<noteq> None \<and> added_variables b = []"
  "build b \<noteq> Inl DuplicateVariable"
  "build b \<noteq> Inl UnknownVariable"
  by (auto simp add: build_def split: option.splits)

lemma build_success:
  "build b = Inr m \<longleftrightarrow>
     (\<exists>e s. current_objective b = Some (e, s) \<and> added_variables b \<noteq> [] \<and>
        m = \<lparr>model_variables = added_variables b, model_objective = e,
             model_sense = s, model_constraints = added_constraints b\<rparr>)"
  by (auto simp add: build_def split: option.splits)

text \<open>
  Claim C9. Model building fails exactly as specified: \<open>add_variable\<close> fails, with
  \<open>DuplicateVariable\<close>, exactly when the name already exists, and otherwise appends the
  variable; \<open>add_constraint\<close> fails, with \<open>UnknownVariable\<close>, exactly when its expression
  references a variable not yet added, and otherwise appends the constraint; \<open>build\<close> fails
  with \<open>EmptyObjective\<close> exactly when no objective has been set, with \<open>EmptyModel\<close> exactly
  when an objective has been set and no variables exist, and otherwise returns the Model
  made of the builder's variables, objective and constraints.
\<close>

theorem model_building_failures:
  "(add_variable n l u d b =
      (if n \<in> ident ` set (added_variables b) then Inl DuplicateVariable
       else Inr (b\<lparr>added_variables :=
                   added_variables b @ [\<lparr>ident = n, lower = l, upper = u, domain = d\<rparr>]\<rparr>)))
   \<and> (add_constraint e r k b =
      (if fst ` set (terms e) \<subseteq> ident ` set (added_variables b)
       then Inr (b\<lparr>added_constraints :=
                   added_constraints b @ [\<lparr>expression = e, operator = r, rhs = k\<rparr>]\<rparr>)
       else Inl UnknownVariable))
   \<and> (build b = Inl EmptyObjective \<longleftrightarrow> current_objective b = None)
   \<and> (build b = Inl EmptyModel \<longleftrightarrow> current_objective b \<noteq> None \<and> added_variables b = [])
   \<and> (\<forall>f s. current_objective b = Some (f, s) \<and> added_variables b \<noteq> [] \<longrightarrow>
         build b = Inr \<lparr>model_variables = added_variables b, model_objective = f,
                        model_sense = s, model_constraints = added_constraints b\<rparr>)
   \<and> (\<forall>x. build b = Inl x \<longrightarrow> x = EmptyObjective \<or> x = EmptyModel)"
proof (intro conjI allI impI)
  show "add_variable n l u d b =
      (if n \<in> ident ` set (added_variables b) then Inl DuplicateVariable
       else Inr (b\<lparr>added_variables :=
                   added_variables b @ [\<lparr>ident = n, lower = l, upper = u, domain = d\<rparr>]\<rparr>))"
    by (simp add: add_variable_def)
  show "add_constraint e r k b =
      (if fst ` set (terms e) \<subseteq> ident ` set (added_variables b)
       then Inr (b\<lparr>added_constraints :=
                   added_constraints b @ [\<lparr>expression = e, operator = r, rhs = k\<rparr>]\<rparr>)
       else Inl UnknownVariable)"
    by (auto simp add: add_constraint_def list_all_iff)
  show "build b = Inl EmptyObjective \<longleftrightarrow> current_objective b = None"
    by (rule build_cases)
  show "build b = Inl EmptyModel \<longleftrightarrow> current_objective b \<noteq> None \<and> added_variables b = []"
    by (rule build_cases)
  show "build b = Inr \<lparr>model_variables = added_variables b, model_objective = f,
                        model_sense = s, model_constraints = added_constraints b\<rparr>"
    if "current_objective b = Some (f, s) \<and> added_variables b \<noteq> []" for f s
    using that by (simp add: build_def)
  show "x = EmptyObjective \<or> x = EmptyModel" if "build b = Inl x" for x
    using that build_cases(3,4) [of b] by (cases x) simp_all
qed

theorem model_building_failures_witness:
  "add_variable ''x'' 0 None Continuous
     \<lparr>added_variables = [\<lparr>ident = ''x'', lower = 0, upper = None, domain = Continuous\<rparr>],
      current_objective = None, added_constraints = []\<rparr> = Inl DuplicateVariable
   \<and> add_constraint (var_expr ''y'') LE 1
     \<lparr>added_variables = [\<lparr>ident = ''x'', lower = 0, upper = None, domain = Continuous\<rparr>],
      current_objective = None, added_constraints = []\<rparr> = Inl UnknownVariable
   \<and> build
     \<lparr>added_variables = [\<lparr>ident = ''x'', lower = 0, upper = None, domain = Continuous\<rparr>],
      current_objective = None, added_constraints = []\<rparr> = Inl EmptyObjective
   \<and> build (set_objective (var_expr ''x'') Maximize build_model) = Inl EmptyModel
   \<and> build (set_objective (var_expr ''x'') Maximize
       \<lparr>added_variables = [\<lparr>ident = ''x'', lower = 0, upper = None, domain = Continuous\<rparr>],
        current_objective = None, added_constraints = []\<rparr>)
     = Inr \<lparr>model_variables = [\<lparr>ident = ''x'', lower = 0, upper = None, domain = Continuous\<rparr>],
            model_objective = var_expr ''x'', model_sense = Maximize, model_constraints = []\<rparr>"
proof -
  let ?b = "\<lparr>added_variables = [\<lparr>ident = ''x'', lower = 0, upper = None, domain = Continuous\<rparr>],
      current_objective = None, added_constraints = []\<rparr>"
  note t1 = model_building_failures [of "''x''" 0 None Continuous ?b "var_expr ''y''" LE 1]
  note t2 = model_building_failures
    [of "''x''" 0 None Continuous "set_objective (var_expr ''x'') Maximize build_model"
        "var_expr ''y''" LE 1]
  note t3 = model_building_failures
    [of "''x''" 0 None Continuous "set_objective (var_expr ''x'') Maximize ?b"
        "var_expr ''y''" LE 1]
  from t1 have "add_variable ''x'' 0 None Continuous ?b = Inl DuplicateVariable"
    by simp
  moreover from t1 have "add_constraint (var_expr ''y'') LE 1 ?b = Inl UnknownVariable"
    by (simp add: var_expr_def)
  moreover from t1 have "build ?b = Inl EmptyObjective"
    by simp
  moreover from t2
  have "build (set_objective (var_expr ''x'') Maximize build_model) = Inl EmptyModel"
    by (simp add: set_objective_def build_model_def)
  moreover from t3
  have "build (set_objective (var_expr ''x'') Maximize ?b)
     = Inr \<lparr>model_variables = [\<lparr>ident = ''x'', lower = 0, upper = None, domain = Continuous\<rparr>],
            model_objective = var_expr ''x'', model_sense = Maximize, model_constraints = []\<rparr>"
    by (simp add: set_objective_def)
  ultimately show ?thesis
    by (simp only: simp_thms)
qed

section \<open>Infeasibility detection in the solver core\<close>

lemma raw_rows_two_bounds: "raw_rows (two_bounds e s d) = [([1], LE, 1), ([1], GE, 2)]"
  by (simp add: two_bounds_def raw_rows_def shifted_row_def bound_rows_def coefficient_def
      var_expr_def)

lemma transform_two_bounds:
  "transform (two_bounds e s d) =
     \<lparr>matrix = [[1, 1, 0, 0], [1, 0, - 1, 1]], rhs_vector = [1, 2],
      objective_vector = [sign_of s * coefficient e ''x'', 0, 0, 0],
      initial_basis = [1, 3], artificial_from = 3,
      objective_offset = sign_of s * constant_term e,
      negated = (s = Minimize)\<rparr>"
  unfolding transform_def raw_rows_two_bounds
  by (simp add: two_bounds_def standard_row_def basic_column_def has_slack_def
      needs_artificial_def flip_def count_before_def Let_def upt_rec numeral_nat)

lemma phase1_tableau_two_bounds:
  "price (phase1_costs (transform (two_bounds e s d))) (initial_rows (transform (two_bounds e s d)))
   = \<lparr>reduced_costs = [- 1, 0, 1, 0], objective_now = - 2,
      body = [([1, 1, 0, 0], 1, 1), ([1, 0, - 1, 1], 2, 3)]\<rparr>"
  unfolding transform_two_bounds
  by (simp add: price_def phase1_costs_def initial_rows_def cost_of_def upt_rec numeral_nat)

lemma phase1_run_two_bounds:
  "iterate 60 \<lparr>reduced_costs = [- 1, 0, 1, 0], objective_now = - 2,
      body = [([1, 1, 0, 0], 1, 1), ([1, 0, - 1, 1], 2, 3)]\<rparr>
   = AtOptimum \<lparr>reduced_costs = [0, 1, 1, 0], objective_now = - 1,
       body = [([1, 1, 0, 0], 1, 0), ([0, - 1, - 1, 1], 1, 3)]\<rparr>"
  by code_simp

lemma cap_two_bounds: "iteration_cap (transform (two_bounds e s d)) = 60"
  by (simp add: iteration_cap_def transform_two_bounds)

lemma phase1_two_bounds:
  "phase1 (transform (two_bounds e s d))
   = AtOptimum \<lparr>reduced_costs = [0, 1, 1, 0], objective_now = - 1,
       body = [([1, 1, 0, 0], 1, 0), ([0, - 1, - 1, 1], 1, 3)]\<rparr>"
  unfolding phase1_def
  by (simp only: cap_two_bounds phase1_tableau_two_bounds phase1_run_two_bounds)

lemma has_artificial_two_bounds: "has_artificial (transform (two_bounds e s d))"
  by (simp add: has_artificial_def transform_two_bounds)

lemma phase2_not_infeasible: "phase2 m sf rows \<noteq> Inr Infeasible"
  by (simp add: phase2_def report_def Let_def split: outcome.splits)

text \<open>
  Claim C7. Solving a model with the constraints \<open>x \<le> 1\<close> and \<open>x \<ge> 2\<close> (with \<open>x \<ge> 0\<close>)
  returns status Infeasible, whatever its objective; and in general the engine terminates
  with status Infeasible whenever the optimum that Phase 1 reaches for the
  minimise-the-sum-of-the-artificial-variables objective exceeds the tolerance \<open>1e-9\<close>
  (and, Phase 1 having reached its optimum, only then).
\<close>

theorem infeasibility_detection:
  "solve (two_bounds e s d) = Inr Infeasible
   \<and> (has_artificial (transform m) \<and> phase1 (transform m) = AtOptimum t \<longrightarrow>
        (solve m = Inr Infeasible \<longleftrightarrow> tolerance < artificial_sum t))"
proof (intro conjI impI)
  have "tolerance < artificial_sum \<lparr>reduced_costs = [0, 1, 1, 0], objective_now = - 1,
       body = [([1, 1, 0, 0], 1, 0), ([0, - 1, - 1, 1], 1, 3)]\<rparr>"
    by (simp add: tolerance_def artificial_sum_def)
  then show "solve (two_bounds e s d) = Inr Infeasible"
    using has_artificial_two_bounds [of e s d]
    by (simp add: solve_def Let_def phase1_two_bounds del: One_nat_def)
next
  assume "has_artificial (transform m) \<and> phase1 (transform m) = AtOptimum t"
  then show "solve m = Inr Infeasible \<longleftrightarrow> tolerance < artificial_sum t"
    using phase2_not_infeasible [of m "transform m" "body t"]
    by (simp add: solve_def Let_def)
qed

theorem infeasibility_detection_witness:
  "has_artificial (transform (two_bounds (var_expr ''x'') Maximize Continuous))
   \<and> phase1 (transform (two_bounds (var_expr ''x'') Maximize Continuous))
       = AtOptimum \<lparr>reduced_costs = [0, 1, 1, 0], objective_now = - 1,
           body = [([1, 1, 0, 0], 1, 0), ([0, - 1, - 1, 1], 1, 3)]\<rparr>
   \<and> tolerance < artificial_sum \<lparr>reduced_costs = [0, 1, 1, 0], objective_now = - 1,
           body = [([1, 1, 0, 0], 1, 0), ([0, - 1, - 1, 1], 1, 3)]\<rparr>
   \<and> solve (two_bounds (var_expr ''x'') Maximize Continuous) = Inr Infeasible"
proof -
  let ?m = "two_bounds (var_expr ''x'') Maximize Continuous"
  let ?t = "\<lparr>reduced_costs = [0, 1, 1, 0], objective_now = - 1,
           body = [([1, 1, 0, 0], 1, 0), ([0, - 1, - 1, 1], 1, 3 :: nat)]\<rparr>"
  note t = infeasibility_detection [of "var_expr ''x''" Maximize Continuous ?m ?t]
  have a: "has_artificial (transform ?m)"
    by (rule has_artificial_two_bounds)
  have p: "phase1 (transform ?m) = AtOptimum ?t"
    by (rule phase1_two_bounds)
  from t a p have "solve ?m = Inr Infeasible \<longleftrightarrow> tolerance < artificial_sum ?t"
    by blast
  moreover from t have "solve ?m = Inr Infeasible"
    by blast
  ultimately show ?thesis
    using a p by blast
qed

section \<open>Solving the literal example\<close>

lemma literal_example_solved:
  "solve literal_example = Inr (Optimal [(''soldiers'', 20), (''trains'', 60)] 180 Exact)"
  by code_simp

text \<open>
  Claim C1. Solving the literal Giapetto model (maximise \<open>3*soldiers + 2*trains\<close> subject to
  \<open>soldiers + trains \<le> 80\<close>, \<open>2*soldiers + trains \<le> 100\<close>, \<open>soldiers \<le> 40\<close>, with
  \<open>soldiers \<ge> 0\<close> and \<open>trains \<ge> 0\<close>) returns status Optimal with \<open>soldiers = 20\<close>,
  \<open>trains = 60\<close> and objective value 180: this is what \<open>solve\<close> returns on the literal
  example; and on the model that the notebook builds, this result is a right answer of a
  solver, and no other result is.
\<close>

theorem literal_example_result:
  "solve literal_example = Inr (Optimal [(''soldiers'', 20), (''trains'', 60)] 180 Exact)
   \<and> answers prob (LpStatusOptimal [soldiers \<mapsto> 20, trains \<mapsto> 60] 180)
   \<and> (\<forall>r. answers prob r \<longrightarrow> r = LpStatusOptimal [soldiers \<mapsto> 20, trains \<mapsto> 60] 180)"
proof (intro conjI allI impI)
  show "solve literal_example = Inr (Optimal [(''soldiers'', 20), (''trains'', 60)] 180 Exact)"
    by (rule literal_example_solved)
  show "answers prob (LpStatusOptimal [soldiers \<mapsto> 20, trains \<mapsto> 60] 180)"
    by (rule right_answer)
  show "r = LpStatusOptimal [soldiers \<mapsto> 20, trains \<mapsto> 60] 180" if "answers prob r" for r
    using that by (rule only_right_answer)
qed

theorem literal_example_result_witness:
  "answers prob (LpStatusOptimal [soldiers \<mapsto> 20, trains \<mapsto> 60] 180)
   \<and> \<not> answers prob (LpStatusOptimal [soldiers \<mapsto> 40, trains \<mapsto> 20] 160)
   \<and> \<not> answers prob LpStatusInfeasible
   \<and> solve literal_example = Inr (Optimal [(''soldiers'', 20), (''trains'', 60)] 180 Exact)"
proof -
  note t = literal_example_result
  have a: "answers prob (LpStatusOptimal [soldiers \<mapsto> 20, trains \<mapsto> 60] 180)"
    by (rule t [THEN conjunct2, THEN conjunct1])
  note u = t [THEN conjunct2, THEN conjunct2, THEN spec, THEN mp]
  from a have "LpStatusOptimal [soldiers \<mapsto> 20, trains \<mapsto> 60] 180
      = LpStatusOptimal [soldiers \<mapsto> 20, trains \<mapsto> 60] 180"
    by (rule u)
  have b: "\<not> answers prob (LpStatusOptimal [soldiers \<mapsto> 40, trains \<mapsto> 20] 160)"
  proof
    assume "answers prob (LpStatusOptimal [soldiers \<mapsto> 40, trains \<mapsto> 20] 160)"
    then have "LpStatusOptimal [soldiers \<mapsto> 40, trains \<mapsto> 20] 160
        = LpStatusOptimal [soldiers \<mapsto> 20, trains \<mapsto> 60] 180"
      by (rule u)
    then show False
      by simp
  qed
  have c: "\<not> answers prob LpStatusInfeasible"
  proof
    assume "answers prob LpStatusInfeasible"
    then have "LpStatusInfeasible = LpStatusOptimal [soldiers \<mapsto> 20, trains \<mapsto> 60] 180"
      by (rule u)
    then show False
      by simp
  qed
  show ?thesis
    by (intro conjI a b c t [THEN conjunct1])
qed

section \<open>The engine on a further model\<close>

text \<open>The specification does not say what Phase 2 does with an artificial variable that is
  still basic when Phase 1 ends. With the artificial columns dropped and the basis kept, as it
  is written, the engine lets such a variable grow again: on the pinned example it ends
  Optimal at \<open>x = 5\<close>, where the constraint \<open>-x = 0\<close> does not hold.\<close>

lemma pinned_example_solved:
  "solve pinned_example = Inr (Optimal [(''x'', 5)] 5 Exact)"
  by code_simp

section \<open>Unboundedness detection in the solver core\<close>

lemma bound_rows_aux:
  "concat (map (\<lambda>(i, v). case upper v of
                              None \<Rightarrow> []
                            | Some u \<Rightarrow> [(unit_row n i, LE, u - lower v)])
                 (enumerate 0 vs))
   = map (\<lambda>i. (unit_row n i, LE, room vs i)) (bounded_columns vs)"
proof (induction vs rule: rev_induct)
  case Nil
  show ?case by (simp add: bounded_columns_def)
next
  case (snoc v vs)
  have e: "enumerate 0 (vs @ [v]) = enumerate 0 vs @ [(length vs, v)]"
    by (simp add: enumerate_append_eq)
  have m: "map (\<lambda>i. (unit_row n i, LE, room (vs @ [v]) i)) (bounded_columns vs)
         = map (\<lambda>i. (unit_row n i, LE, room vs i)) (bounded_columns vs)"
    by (rule map_cong) (auto simp add: bounded_columns_def room_def nth_append)
  have f: "filter (\<lambda>i. upper ((vs @ [v]) ! i) \<noteq> None) [0..<length vs]
         = filter (\<lambda>i. upper (vs ! i) \<noteq> None) [0..<length vs]"
    by (rule filter_cong) (auto simp add: nth_append)
  show ?case
    using snoc.IH m f
    by (cases "upper v") (simp_all add: e bounded_columns_def room_def)
qed

lemma bound_rows_eq:
  "bound_rows vs = map (\<lambda>i. (unit_row (length vs) i, LE, room vs i)) (bounded_columns vs)"
  unfolding bound_rows_def by (rule bound_rows_aux)

lemma bounded_columns_props:
  "distinct (bounded_columns vs)"
  "i \<in> set (bounded_columns vs) \<longleftrightarrow> i < length vs \<and> upper (vs ! i) \<noteq> None"
  by (auto simp add: bounded_columns_def)

lemma room_nonneg:
  assumes "list_all well_bounded vs" "i < length vs"
  shows "0 \<le> room vs i"
proof -
  from assms have "well_bounded (vs ! i)"
    by (simp add: list_all_length)
  then show ?thesis
    by (simp add: room_def well_bounded_def split: option.splits)
qed

lemma raw_rows_bounds:
  assumes "model_constraints m = []"
  shows "raw_rows m =
    map (\<lambda>i. (unit_row (length (model_variables m)) i, LE, room (model_variables m) i))
      (bounded_columns (model_variables m))"
  using assms by (simp add: raw_rows_def bound_rows_eq)

lemma count_before_all:
  assumes "\<forall>x \<in> set xs. P x" "i \<le> length xs"
  shows "count_before P xs i = i"
proof -
  have "filter P (take i xs) = take i xs"
    using assms(1) by (auto simp add: filter_id_conv dest: in_set_takeD)
  with assms(2) show ?thesis
    by (simp add: count_before_def)
qed

lemma filter_all: "\<forall>x \<in> set xs. P x \<Longrightarrow> filter P xs = xs"
  by (simp add: filter_id_conv)

lemma filter_none: "\<forall>x \<in> set xs. \<not> P x \<Longrightarrow> filter P xs = []"
  by (simp add: filter_empty_conv)

lemma transform_bounds:
  fixes m :: Model
  defines "vs \<equiv> model_variables m"
  defines "U \<equiv> bounded_columns (model_variables m)"
  assumes c: "model_constraints m = []" and w: "list_all well_bounded (model_variables m)"
  shows "transform m =
     \<lparr>matrix = map (\<lambda>i. unit_row (length vs) (U ! i) @ unit_row (length U) i) [0..<length U],
      rhs_vector = map (\<lambda>i. room vs (U ! i)) [0..<length U],
      objective_vector = map (gain m) vs @ replicate (length U) 0,
      initial_basis = map (\<lambda>i. length vs + i) [0..<length U],
      artificial_from = length vs + length U,
      objective_offset =
        sign_of (model_sense m) * constant_term (model_objective m)
        + sum_list (map2 (\<lambda>k v. k * lower v) (map (gain m) vs) vs),
      negated = (model_sense m = Minimize)\<rparr>"
proof -
  let ?rs = "raw_rows m"
  have rs: "?rs = map (\<lambda>i. (unit_row (length vs) i, LE, room vs i)) U"
    using raw_rows_bounds [OF c] by (simp add: vs_def U_def)
  have len: "length ?rs = length U"
    by (simp add: rs)
  have Un: "U ! i < length vs" if "i < length U" for i
    using that bounded_columns_props(2) [of "U ! i" vs] by (simp add: U_def vs_def)
  have nth: "?rs ! i = (unit_row (length vs) (U ! i), LE, room vs (U ! i))"
    if "i < length U" for i
    using that by (simp add: rs)
  have slack: "\<forall>r \<in> set ?rs. has_slack r"
    by (auto simp add: rs has_slack_def)
  have art: "\<forall>r \<in> set ?rs. \<not> needs_artificial r"
  proof
    fix r assume "r \<in> set ?rs"
    then obtain i where "i \<in> set U" and r: "r = (unit_row (length vs) i, LE, room vs i)"
      by (auto simp add: rs)
    then have "i < length vs"
      using bounded_columns_props(2) [of i vs] by (simp add: U_def vs_def)
    with w have "0 \<le> room vs i"
      using room_nonneg [of vs i] by (simp add: vs_def)
    with r show "\<not> needs_artificial r"
      by (simp add: needs_artificial_def)
  qed
  have fs: "filter has_slack ?rs = ?rs"
    using slack by (rule filter_all)
  have fa: "filter needs_artificial ?rs = []"
    using art by (rule filter_none)
  have flip1: "flip (?rs ! i) = 1" if "i < length U" for i
  proof -
    from that have "?rs ! i \<in> set ?rs"
      by (simp add: len)
    with art have "\<not> needs_artificial (?rs ! i)"
      by blast
    then show ?thesis
      using nth [OF that] by (simp add: needs_artificial_def flip_def)
  qed
  have row: "standard_row ?rs i = unit_row (length vs) (U ! i) @ unit_row (length U) i"
    if "i < length U" for i
  proof -
    have cb: "count_before has_slack ?rs i = i"
      using slack that by (intro count_before_all) (simp_all add: len)
    have hs: "has_slack (?rs ! i)"
      using slack that by (simp add: len)
    have na: "\<not> needs_artificial (?rs ! i)"
      using art that by (simp add: len)
    show ?thesis
      unfolding standard_row_def Let_def fs fa cb flip1 [OF that]
      using hs by (simp add: nth [OF that] len unit_row_def)
  qed
  have col: "basic_column (length vs) ?rs i = length vs + i" if "i < length U" for i
  proof -
    have cb: "count_before has_slack ?rs i = i"
      using slack that by (intro count_before_all) (simp_all add: len)
    have na: "\<not> needs_artificial (?rs ! i)"
      using art that by (simp add: len)
    show ?thesis
      by (simp add: basic_column_def na cb)
  qed
  have rhs: "map (\<lambda>r. flip r * snd (snd r)) ?rs = map (\<lambda>i. room vs (U ! i)) [0..<length U]"
  proof (rule nth_equalityI)
    show "length (map (\<lambda>r. flip r * snd (snd r)) ?rs)
        = length (map (\<lambda>i. room vs (U ! i)) [0..<length U])"
      by (simp add: len)
    fix i assume "i < length (map (\<lambda>r. flip r * snd (snd r)) ?rs)"
    then have i: "i < length U"
      by (simp add: len)
    then have "flip (?rs ! i) * snd (snd (?rs ! i)) = room vs (U ! i)"
      by (simp only: flip1 [OF i]) (simp add: nth [OF i])
    with i show "map (\<lambda>r. flip r * snd (snd r)) ?rs ! i
        = map (\<lambda>i. room vs (U ! i)) [0..<length U] ! i"
      by (simp add: len)
  qed
  have M: "map (standard_row ?rs) [0..<length ?rs]
      = map (\<lambda>i. unit_row (length vs) (U ! i) @ unit_row (length U) i) [0..<length U]"
    unfolding len by (rule map_cong) (simp_all add: row)
  have B: "map (basic_column (length vs) ?rs) [0..<length ?rs]
      = map (\<lambda>i. length vs + i) [0..<length U]"
  proof (rule nth_equalityI)
    show "length (map (basic_column (length vs) ?rs) [0..<length ?rs])
        = length (map (\<lambda>i. length vs + i) [0..<length U])"
      by (simp add: len)
    fix i assume "i < length (map (basic_column (length vs) ?rs) [0..<length ?rs])"
    then have i: "i < length U"
      by (simp add: len)
    show "map (basic_column (length vs) ?rs) [0..<length ?rs] ! i
        = map (\<lambda>i. length vs + i) [0..<length U] ! i"
      using i col [OF i] by (simp add: len)
  qed
  have g: "map (\<lambda>v. sign_of (model_sense m) * coefficient (model_objective m) (ident v)) vs
      = map (gain m) vs"
    by (simp add: gain_def)
  show ?thesis
    unfolding transform_def Let_def vs_def [symmetric] M B rhs fs fa
    by (simp add: len g)
qed

lemma length_unit_row [simp]: "length (unit_row n i) = n"
  by (simp add: unit_row_def)

lemma nth_unit_row [simp]: "j < n \<Longrightarrow> unit_row n i ! j = (if j = i then 1 else 0)"
  by (simp add: unit_row_def)

lemma nth_bound_row:
  "j < n + k \<Longrightarrow>
   (unit_row n u @ unit_row k i) ! j =
     (if j < n then (if j = u then 1 else 0) else (if j - n = i then 1 else 0))"
  by (simp add: nth_append)

lemma bound_tableau_simps [simp]:
  "length (reduced_costs (bound_tableau n c U b S)) = n + length U"
  "length (body (bound_tableau n c U b S)) = length U"
  "i < length U \<Longrightarrow>
     body (bound_tableau n c U b S) ! i =
       (unit_row n (U ! i) @ unit_row (length U) i, b i, if i \<in> S then U ! i else n + i)"
  "j < n + length U \<Longrightarrow>
     reduced_costs (bound_tableau n c U b S) ! j =
       (if j < n then (if j \<in> (!) U ` S then 0 else - c j)
        else (if j - n \<in> S then c (U ! (j - n)) else 0))"
  by (simp_all add: bound_tableau_def del: upt_Suc)

lemma sum_list_all_zero:
  "(\<And>x. x \<in> set xs \<Longrightarrow> f x = (0::real)) \<Longrightarrow> sum_list (map f xs) = 0"
  by (induction xs) simp_all

lemma initial_bound_tableau:
  "price (map c [0..<n] @ replicate (length U) 0)
     (zip (map (\<lambda>i. unit_row n (U ! i) @ unit_row (length U) i) [0..<length U])
        (zip (map b [0..<length U]) (map (\<lambda>i. n + i) [0..<length U])))
   = bound_tableau n c U b {}"
proof -
  let ?cv = "map c [0..<n] @ replicate (length U) 0"
  let ?rows = "map (\<lambda>i. (unit_row n (U ! i) @ unit_row (length U) i, b i, n + i)) [0..<length U]"
  have z: "zip (map (\<lambda>i. unit_row n (U ! i) @ unit_row (length U) i) [0..<length U])
        (zip (map b [0..<length U]) (map (\<lambda>i. n + i) [0..<length U])) = ?rows"
    by (rule nth_equalityI) simp_all
  have cost: "cost_of ?cv v = 0" if "(a, k, v) \<in> set ?rows" for a k v
    using that by (auto simp add: cost_of_def nth_append)
  have s1: "sum_list (map (\<lambda>(a, b, v). cost_of ?cv v * a ! j) ?rows) = 0" for j
    by (rule sum_list_all_zero) (use cost in fastforce)
  have s2: "sum_list (map (\<lambda>(a, b, v). cost_of ?cv v * b) ?rows) = 0"
    by (rule sum_list_all_zero) (use cost in fastforce)
  have r: "map (\<lambda>j. sum_list (map (\<lambda>(a, b, v). cost_of ?cv v * a ! j) ?rows) - ?cv ! j)
             [0..<length ?cv]
         = map (\<lambda>j. if j < n then (if j \<in> (!) U ` {} then 0 else - c j)
                  else (if j - n \<in> {} then c (U ! (j - n)) else 0)) [0..<n + length U]"
    unfolding s1 by (rule nth_equalityI) (simp_all add: nth_append del: upt_Suc)
  show ?thesis
    unfolding z price_def bound_tableau_def r s2 by simp
qed

lemma map2_first:
  "length xs = length ys \<Longrightarrow> map2 (\<lambda>x y. x) xs ys = xs"
  by (rule nth_equalityI) simp_all

lemma sum_list_insert_index:
  assumes "p < k" "p \<notin> S"
  shows "sum_list (map (\<lambda>i. if i \<in> insert p S then f i else (0::real)) [0..<k])
       = sum_list (map (\<lambda>i. if i \<in> S then f i else 0) [0..<k]) + f p"
proof -
  have "(\<Sum>i = 0..<k. if i \<in> insert p S then f i else 0)
      = (\<Sum>i = 0..<k. (if i \<in> S then f i else 0) + (if i = p then f i else 0))"
    using assms(2) by (intro sum.cong refl) auto
  also have "\<dots> = (\<Sum>i = 0..<k. if i \<in> S then f i else 0)
      + (\<Sum>i = 0..<k. if i = p then f i else 0)"
    by (rule sum.distrib)
  also have "(\<Sum>i = 0..<k. if i = p then f i else 0) = f p"
    using assms(1) by simp
  finally show ?thesis
    by (simp add: interv_sum_list_conv_sum_set_nat)
qed

lemma pivot_unit_entry:
  assumes "body t ! p = (pa, pb, pv)" "pa ! j = 1"
  shows "pivot t p j =
     \<lparr>reduced_costs = map2 (\<lambda>x y. x - reduced_costs t ! j * y) (reduced_costs t) pa,
      objective_now = objective_now t - reduced_costs t ! j * pb,
      body = map (\<lambda>(i, (a, k, v)).
                    if i = p then (pa, pb, j)
                    else (case eliminate j pa pb (a, k) of (a', b') \<Rightarrow> (a', b', v)))
                 (enumerate 0 (body t))\<rparr>"
  using assms by (simp add: pivot_def eliminate_def Let_def map_idI cong del: if_weak_cong)

lemma pivot_bound_tableau:
  assumes d: "distinct U" and un: "\<forall>u \<in> set U. u < n"
    and S: "S \<subseteq> {..<length U}" and p: "p < length U" and pS: "p \<notin> S"
  shows "pivot (bound_tableau n c U b S) p (U ! p) = bound_tableau n c U b (insert p S)"
proof -
  let ?k = "length U"
  let ?T = "bound_tableau n c U b S"
  let ?j = "U ! p"
  let ?pa = "unit_row n ?j @ unit_row ?k p"
  have jn: "?j < n"
    using un p by simp
  have inj: "U ! i = U ! p \<longleftrightarrow> i = p" if "i < ?k" for i
    using d that p by (simp add: nth_eq_iff_index_eq)
  have jS: "?j \<notin> (!) U ` S"
  proof
    assume "?j \<in> (!) U ` S"
    then obtain i where "i \<in> S" "U ! i = ?j" by auto
    moreover from \<open>i \<in> S\<close> S have "i < ?k" by auto
    ultimately show False using inj pS by auto
  qed
  have bp: "body ?T ! p = (?pa, b p, n + p)"
    using p pS by simp
  have paj: "?pa ! ?j = 1"
    using jn by (simp add: nth_append)
  have rj: "reduced_costs ?T ! ?j = - c ?j"
    using jn jS by simp
  have costs: "map2 (\<lambda>x y. x - reduced_costs ?T ! ?j * y) (reduced_costs ?T) ?pa
      = reduced_costs (bound_tableau n c U b (insert p S))"
  proof (rule nth_equalityI)
    show "length (map2 (\<lambda>x y. x - reduced_costs ?T ! ?j * y) (reduced_costs ?T) ?pa)
        = length (reduced_costs (bound_tableau n c U b (insert p S)))"
      by simp
    fix q assume "q < length (map2 (\<lambda>x y. x - reduced_costs ?T ! ?j * y) (reduced_costs ?T) ?pa)"
    then have q: "q < n + ?k" by simp
    have img: "q \<in> (!) U ` insert p S \<longleftrightarrow> q = ?j \<or> q \<in> (!) U ` S"
      by auto
    have "reduced_costs ?T ! q - reduced_costs ?T ! ?j * ?pa ! q
        = reduced_costs (bound_tableau n c U b (insert p S)) ! q"
      unfolding rj using q jS pS
      by (auto simp add: nth_bound_row img)
    with q show "map2 (\<lambda>x y. x - reduced_costs ?T ! ?j * y) (reduced_costs ?T) ?pa ! q
        = reduced_costs (bound_tableau n c U b (insert p S)) ! q"
      by simp
  qed
  have obj: "objective_now ?T - reduced_costs ?T ! ?j * b p
      = objective_now (bound_tableau n c U b (insert p S))"
    unfolding rj
    using sum_list_insert_index [OF p pS, of "\<lambda>i. c (U ! i) * b i"]
    by (simp add: bound_tableau_def)
  have rows: "map (\<lambda>(i, (a, k, v)).
                  if i = p then (?pa, b p, ?j)
                  else (case eliminate ?j ?pa (b p) (a, k) of (a', b') \<Rightarrow> (a', b', v)))
                (enumerate 0 (body ?T))
      = body (bound_tableau n c U b (insert p S))"
  proof (rule nth_equalityI)
    show "length (map (\<lambda>(i, (a, k, v)).
                  if i = p then (?pa, b p, ?j)
                  else (case eliminate ?j ?pa (b p) (a, k) of (a', b') \<Rightarrow> (a', b', v)))
                (enumerate 0 (body ?T)))
        = length (body (bound_tableau n c U b (insert p S)))"
      by simp
    fix i assume "i < length (map (\<lambda>(i, (a, k, v)).
                  if i = p then (?pa, b p, ?j)
                  else (case eliminate ?j ?pa (b p) (a, k) of (a', b') \<Rightarrow> (a', b', v)))
                (enumerate 0 (body ?T)))"
    then have i: "i < ?k" by simp
    have e: "enumerate 0 (body ?T) ! i = (i, body ?T ! i)"
      using i by (simp add: nth_enumerate_eq)
    show "map (\<lambda>(i, (a, k, v)).
                  if i = p then (?pa, b p, ?j)
                  else (case eliminate ?j ?pa (b p) (a, k) of (a', b') \<Rightarrow> (a', b', v)))
                (enumerate 0 (body ?T)) ! i
        = body (bound_tableau n c U b (insert p S)) ! i"
    proof (cases "i = p")
      case True
      with i e show ?thesis by simp
    next
      case False
      let ?a = "unit_row n (U ! i) @ unit_row ?k i"
      have "?a ! ?j = 0"
        using jn inj [OF i] False by (auto simp add: nth_append)
      then have "eliminate ?j ?pa (b p) (?a, b i) = (?a, b i)"
        by (simp add: eliminate_def map2_first)
      with i e False show ?thesis by simp
    qed
  qed
  have "pivot ?T p ?j =
     \<lparr>reduced_costs = reduced_costs (bound_tableau n c U b (insert p S)),
      objective_now = objective_now (bound_tableau n c U b (insert p S)),
      body = body (bound_tableau n c U b (insert p S))\<rparr>"
    by (simp only: pivot_unit_entry [OF bp paj] costs obj rows)
  then show ?thesis
    by simp
qed

lemma iterate_unfold:
  "iterate n t =
     (case entering_column t of
        None \<Rightarrow> AtOptimum t
      | Some j \<Rightarrow>
          (case leaving_row t j of
             None \<Rightarrow> NoLeavingRow
           | Some p \<Rightarrow> (case n of 0 \<Rightarrow> LimitExceeded | Suc k \<Rightarrow> iterate k (pivot t p j))))"
  by (cases n) (simp_all split: option.splits)

lemma fold_select:
  "fold (\<lambda>k best. if Q k best then k else best) js j \<in> set (j # js)"
proof (induction js arbitrary: j)
  case Nil
  show ?case by simp
next
  case (Cons a js)
  show ?case
    using Cons.IH [of a] Cons.IH [of j] by auto
qed

lemma tolerance_pos: "0 < tolerance"
  by (simp add: tolerance_def)

lemma entering_filter:
  assumes S: "S \<subseteq> {..<length U}" and pos: "\<forall>i \<in> S. tolerance < c (U ! i)"
  shows "filter (\<lambda>j. j \<notin> set (map (\<lambda>row. snd (snd row)) (body (bound_tableau n c U b S)))
                  \<and> reduced_costs (bound_tableau n c U b S) ! j < - tolerance)
           [0..<length (reduced_costs (bound_tableau n c U b S))]
       = filter (\<lambda>j. j < n \<and> j \<notin> (!) U ` S \<and> tolerance < c j) [0..<n + length U]"
proof -
  let ?T = "bound_tableau n c U b S"
  have basics: "set (map (\<lambda>row. snd (snd row)) (body ?T))
      = (\<lambda>i. if i \<in> S then U ! i else n + i) ` {0..<length U}"
    by (simp add: bound_tableau_def image_image del: upt_Suc)
  have mem: "j \<in> set (map (\<lambda>row. snd (snd row)) (body ?T)) \<longleftrightarrow> j \<in> (!) U ` S"
    if "j < n" for j
  proof
    assume "j \<in> set (map (\<lambda>row. snd (snd row)) (body ?T))"
    then obtain i where "i < length U" "j = (if i \<in> S then U ! i else n + i)"
      unfolding basics by auto
    with that show "j \<in> (!) U ` S"
      by (cases "i \<in> S") auto
  next
    assume "j \<in> (!) U ` S"
    then obtain i where i: "i \<in> S" "j = U ! i" by auto
    with S have "i < length U" by auto
    with i show "j \<in> set (map (\<lambda>row. snd (snd row)) (body ?T))"
      unfolding basics by force
  qed
  show ?thesis
  proof (simp only: bound_tableau_simps, rule filter_cong [OF refl])
    fix j assume "j \<in> set [0..<n + length U]"
    then have j: "j < n + length U" by simp
    show "(j \<notin> set (map (\<lambda>row. snd (snd row)) (body ?T)) \<and> reduced_costs ?T ! j < - tolerance)
        = (j < n \<and> j \<notin> (!) U ` S \<and> tolerance < c j)"
    proof (cases "j < n")
      case True
      with j mem [OF True] show ?thesis
        using tolerance_pos by auto
    next
      case False
      with j pos show ?thesis
        using tolerance_pos by (auto simp add: not_less)
    qed
  qed
qed

lemma entering_bound_tableau:
  assumes S: "S \<subseteq> {..<length U}" and pos: "\<forall>i \<in> S. tolerance < c (U ! i)"
  shows "entering_column (bound_tableau n c U b S) = None
           \<longleftrightarrow> \<not> (\<exists>j < n. j \<notin> (!) U ` S \<and> tolerance < c j)"
    and "entering_column (bound_tableau n c U b S) = Some j
           \<Longrightarrow> j < n \<and> j \<notin> (!) U ` S \<and> tolerance < c j"
proof -
  let ?T = "bound_tableau n c U b S"
  let ?F = "filter (\<lambda>j. j < n \<and> j \<notin> (!) U ` S \<and> tolerance < c j) [0..<n + length U]"
  have e: "entering_column ?T =
      (case ?F of [] \<Rightarrow> None
       | j # js \<Rightarrow> Some (fold (\<lambda>k best. if reduced_costs ?T ! k < reduced_costs ?T ! best
                                        then k else best) js j))"
    unfolding entering_column_def Let_def entering_filter [OF S pos] ..
  have "?F = [] \<longleftrightarrow> \<not> (\<exists>j < n. j \<notin> (!) U ` S \<and> tolerance < c j)"
    by (auto simp add: filter_empty_conv)
  moreover have "entering_column ?T = None \<longleftrightarrow> ?F = []"
    unfolding e by (cases ?F) simp_all
  ultimately
  show "entering_column ?T = None \<longleftrightarrow> \<not> (\<exists>j < n. j \<notin> (!) U ` S \<and> tolerance < c j)"
    by (rule trans [rotated])
  assume "entering_column ?T = Some j"
  then obtain j0 js where F: "?F = j0 # js"
    and j: "j = fold (\<lambda>k best. if reduced_costs ?T ! k < reduced_costs ?T ! best
                                then k else best) js j0"
    unfolding e by (auto split: list.splits)
  have "j \<in> set (j0 # js)"
    unfolding j by (rule fold_select)
  then have "j \<in> set ?F"
    by (simp only: F)
  then show "j < n \<and> j \<notin> (!) U ` S \<and> tolerance < c j"
    by simp
qed

lemma filter_upt_single: "p < k \<Longrightarrow> filter (\<lambda>i. i = p) [0..<k] = [p]"
  by (induction k) (auto simp add: filter_empty_conv less_Suc_eq)

lemma leaving_filter:
  assumes "j < n"
  shows "filter (\<lambda>i. 0 < fst (body (bound_tableau n c U b S) ! i) ! j)
           [0..<length (body (bound_tableau n c U b S))]
       = filter (\<lambda>i. U ! i = j) [0..<length U]"
  using assms by (simp only: bound_tableau_simps, intro filter_cong refl)
    (auto simp add: nth_append)

lemma leaving_bound_tableau:
  assumes d: "distinct U" and j: "j < n"
  shows "j \<notin> set U \<Longrightarrow> leaving_row (bound_tableau n c U b S) j = None"
    and "p < length U \<Longrightarrow> j = U ! p \<Longrightarrow> leaving_row (bound_tableau n c U b S) j = Some p"
proof -
  assume "j \<notin> set U"
  then have "filter (\<lambda>i. U ! i = j) [0..<length U] = []"
    by (auto simp add: filter_empty_conv)
  then show "leaving_row (bound_tableau n c U b S) j = None"
    unfolding leaving_row_def leaving_filter [OF j] by simp
next
  assume p: "p < length U" "j = U ! p"
  have "filter (\<lambda>i. U ! i = j) [0..<length U] = filter (\<lambda>i. i = p) [0..<length U]"
    using d p by (intro filter_cong refl) (simp add: nth_eq_iff_index_eq)
  also have "\<dots> = [p]"
    using p(1) by (rule filter_upt_single)
  finally show "leaving_row (bound_tableau n c U b S) j = Some p"
    unfolding leaving_row_def leaving_filter [OF j] by simp
qed

lemma bound_tableau_step:
  assumes d: "distinct U" and un: "\<forall>u \<in> set U. u < n"
    and S: "S \<subseteq> {..<length U}" and pos: "\<forall>i \<in> S. tolerance < c (U ! i)"
  obtains
    (optimum) "entering_column (bound_tableau n c U b S) = None"
      "\<not> (\<exists>j < n. j \<notin> set U \<and> tolerance < c j)"
      "{p. p < length U \<and> tolerance < c (U ! p)} \<subseteq> S"
  | (unbounded) j where "entering_column (bound_tableau n c U b S) = Some j"
      "leaving_row (bound_tableau n c U b S) j = None"
      "j < n" "j \<notin> set U" "tolerance < c j"
  | (pivot) p where "p < length U" "p \<notin> S" "tolerance < c (U ! p)"
      "entering_column (bound_tableau n c U b S) = Some (U ! p)"
      "leaving_row (bound_tableau n c U b S) (U ! p) = Some p"
      "pivot (bound_tableau n c U b S) p (U ! p) = bound_tableau n c U b (insert p S)"
proof (cases "entering_column (bound_tableau n c U b S)")
  case None
  then have all: "\<forall>j < n. j \<in> (!) U ` S \<or> \<not> tolerance < c j"
    using entering_bound_tableau(1) [OF S pos, of n b] by simp
  have img: "(!) U ` S \<subseteq> set U"
    using S by auto
  have 1: "\<not> (\<exists>j < n. j \<notin> set U \<and> tolerance < c j)"
    using all img by blast
  have 2: "{p. p < length U \<and> tolerance < c (U ! p)} \<subseteq> S"
  proof
    fix p assume "p \<in> {p. p < length U \<and> tolerance < c (U ! p)}"
    then have p: "p < length U" "tolerance < c (U ! p)" by simp_all
    then have "U ! p < n" using un by simp
    with all p(2) have "U ! p \<in> (!) U ` S" by blast
    then obtain i where i: "i \<in> S" "U ! i = U ! p" by auto
    with S have "i < length U" by auto
    with d p(1) i(2) have "i = p" by (simp add: nth_eq_iff_index_eq)
    with i(1) show "p \<in> S" by simp
  qed
  from None 1 2 show ?thesis by (rule optimum)
next
  case (Some j)
  then have j: "j < n" "j \<notin> (!) U ` S" "tolerance < c j"
    using entering_bound_tableau(2) [OF S pos, of n b j] by simp_all
  show ?thesis
  proof (cases "j \<in> set U")
    case False
    from Some leaving_bound_tableau(1) [OF d j(1) False] j(1) False j(3)
    show ?thesis by (rule unbounded)
  next
    case True
    then obtain p where p: "p < length U" "U ! p = j"
      by (auto simp add: in_set_conv_nth)
    with j(2) have pS: "p \<notin> S" by auto
    have l: "leaving_row (bound_tableau n c U b S) (U ! p) = Some p"
      using leaving_bound_tableau(2) [OF d j(1) p(1), of c b S] p(2) by simp
    have "pivot (bound_tableau n c U b S) p (U ! p) = bound_tableau n c U b (insert p S)"
      using d un S p(1) pS by (rule pivot_bound_tableau)
    with p(1) pS j(3) Some l show ?thesis
      unfolding p(2) [symmetric] by (rule pivot)
  qed
qed

lemma iterate_bound_tableau:
  assumes d: "distinct U" and un: "\<forall>u \<in> set U. u < n"
    and S: "S \<subseteq> {..<length U}" and pos: "\<forall>i \<in> S. tolerance < c (U ! i)"
    and fuel: "card ({p. p < length U \<and> tolerance < c (U ! p)} - S) \<le> fuel"
  shows "iterate fuel (bound_tableau n c U b S) =
    (if \<exists>j < n. j \<notin> set U \<and> tolerance < c j then NoLeavingRow
     else AtOptimum (bound_tableau n c U b (S \<union> {p. p < length U \<and> tolerance < c (U ! p)})))"
  using S pos fuel
proof (induction fuel arbitrary: S)
  case 0
  let ?X = "{p. p < length U \<and> tolerance < c (U ! p)}"
  have fin: "finite (?X - S)" by simp
  from d un "0.prems"(1,2) show ?case
  proof (cases rule: bound_tableau_step [where b = b])
    case optimum
    then have "S \<union> ?X = S" by auto
    with optimum show ?thesis
      by (subst iterate_unfold) simp
  next
    case (unbounded j)
    then have "\<exists>j < n. j \<notin> set U \<and> tolerance < c j" by blast
    with unbounded show ?thesis
      by (subst iterate_unfold) simp
  next
    case (pivot p)
    then have "p \<in> ?X - S" by simp
    with fin "0.prems"(3) show ?thesis
      by (auto simp add: card_eq_0_iff)
  qed
next
  case (Suc fuel)
  let ?X = "{p. p < length U \<and> tolerance < c (U ! p)}"
  have fin: "finite (?X - S)" by simp
  from d un Suc.prems(1,2) show ?case
  proof (cases rule: bound_tableau_step [where b = b])
    case optimum
    then have "S \<union> ?X = S" by auto
    with optimum show ?thesis
      by (subst iterate_unfold) simp
  next
    case (unbounded j)
    then have "\<exists>j < n. j \<notin> set U \<and> tolerance < c j" by blast
    with unbounded show ?thesis
      by (subst iterate_unfold) simp
  next
    case (pivot p)
    have mem: "p \<in> ?X - S"
      using pivot by simp
    have 1: "insert p S \<subseteq> {..<length U}"
      using Suc.prems(1) pivot(1) by simp
    have 2: "\<forall>i \<in> insert p S. tolerance < c (U ! i)"
      using Suc.prems(2) pivot(3) by simp
    have "?X - insert p S = (?X - S) - {p}" by auto
    then have "card (?X - insert p S) = card (?X - S) - 1"
      using mem fin by simp
    moreover have "0 < card (?X - S)"
      using mem fin by (auto simp add: card_gt_0_iff)
    ultimately have 3: "card (?X - insert p S) \<le> fuel"
      using Suc.prems(3) by simp
    have u: "insert p S \<union> ?X = S \<union> ?X"
      using mem by auto
    have "iterate (Suc fuel) (bound_tableau n c U b S)
        = iterate fuel (bound_tableau n c U b (insert p S))"
      using pivot(4,5,6) by (subst iterate_unfold) simp
    also have "\<dots> = (if \<exists>j < n. j \<notin> set U \<and> tolerance < c j then NoLeavingRow
       else AtOptimum (bound_tableau n c U b (insert p S \<union> ?X)))"
      using 1 2 3 by (rule Suc.IH)
    finally show ?thesis
      unfolding u .
  qed
qed

lemma sum_list_single:
  assumes "p < k" "\<And>i. i < k \<Longrightarrow> i \<noteq> p \<Longrightarrow> f i = (0::real)"
  shows "sum_list (map f [0..<k]) = f p"
proof -
  have "sum_list (map f [0..<k]) = (\<Sum>i = 0..<k. f i)"
    by (simp add: interv_sum_list_conv_sum_set_nat)
  also have "\<dots> = (\<Sum>i = 0..<k. if i = p then f p else 0)"
    using assms(2) by (intro sum.cong refl) auto
  also have "\<dots> = f p"
    using assms(1) by simp
  finally show ?thesis .
qed

lemma basic_value_bound_tableau:
  fixes vs :: "Variable list" and m :: Model
  defines "U \<equiv> bounded_columns vs"
  defines "X \<equiv> {p. p < length U \<and> tolerance < gain m (vs ! (U ! p))}"
  assumes j: "j < length vs"
  shows "basic_value (bound_tableau (length vs) (\<lambda>j. gain m (vs ! j)) U (\<lambda>i. room vs (U ! i)) X) j
           + lower (vs ! j) = extremum m (vs ! j)"
proof -
  let ?n = "length vs"
  let ?f = "\<lambda>i. if (if i \<in> X then U ! i else ?n + i) = j then room vs (U ! i) else 0"
  have bv: "basic_value (bound_tableau ?n (\<lambda>j. gain m (vs ! j)) U (\<lambda>i. room vs (U ! i)) X) j
      = sum_list (map ?f [0..<length U])"
    by (simp add: basic_value_def bound_tableau_def comp_def del: upt_Suc)
  have d: "distinct U"
    unfolding U_def by (rule bounded_columns_props)
  show ?thesis
  proof (cases "upper (vs ! j)")
    case None
    with j have "j \<notin> set U"
      by (simp add: U_def bounded_columns_props)
    then have "?f i = 0" if "i \<in> set [0..<length U]" for i
      using that j by (auto simp add: in_set_conv_nth)
    then have "sum_list (map ?f [0..<length U]) = 0"
      by (rule sum_list_all_zero)
    with None show ?thesis
      by (simp add: bv extremum_def)
  next
    case (Some u)
    with j have "j \<in> set U"
      by (simp add: U_def bounded_columns_props)
    then obtain p where p: "p < length U" "U ! p = j"
      by (auto simp add: in_set_conv_nth)
    have "?f i = 0" if "i < length U" "i \<noteq> p" for i
      using that p d j by (auto simp add: nth_eq_iff_index_eq)
    with p(1) have "sum_list (map ?f [0..<length U]) = ?f p"
      by (rule sum_list_single)
    also have "\<dots> = (if tolerance < gain m (vs ! j) then room vs j else 0)"
      using p j by (auto simp add: X_def)
    finally have s: "sum_list (map ?f [0..<length U])
        = (if tolerance < gain m (vs ! j) then room vs j else 0)" .
    have "room vs j = u - lower (vs ! j)"
      using Some by (simp add: room_def)
    then show ?thesis
      unfolding bv s using Some by (simp add: extremum_def)
  qed
qed

lemma objective_bound_tableau:
  fixes vs :: "Variable list" and m :: Model
  defines "U \<equiv> bounded_columns vs"
  defines "X \<equiv> {p. p < length U \<and> tolerance < gain m (vs ! (U ! p))}"
  shows "objective_now (bound_tableau (length vs) (\<lambda>j. gain m (vs ! j)) U (\<lambda>i. room vs (U ! i)) X)
       = sum_list (map (\<lambda>v. gain m v * (extremum m v - lower v)) vs)"
proof -
  let ?n = "length vs"
  let ?f = "\<lambda>j. if tolerance < gain m (vs ! j) then gain m (vs ! j) * room vs j else 0"
  have d: "distinct U"
    unfolding U_def by (rule bounded_columns_props)
  have sub: "set U \<subseteq> {0..<?n}"
    by (auto simp add: U_def bounded_columns_props)
  have "objective_now (bound_tableau ?n (\<lambda>j. gain m (vs ! j)) U (\<lambda>i. room vs (U ! i)) X)
      = sum_list (map (\<lambda>i. ?f (U ! i)) [0..<length U])"
    unfolding bound_tableau_def
    by (simp del: upt_Suc, intro arg_cong [where f = sum_list] map_cong refl)
      (simp add: X_def)
  also have "map (\<lambda>i. ?f (U ! i)) [0..<length U] = map ?f U"
    by (rule nth_equalityI) simp_all
  also have "sum_list (map ?f U) = sum ?f (set U)"
    using d by (rule sum_list_distinct_conv_sum_set)
  also have "\<dots> = (\<Sum>j = 0..<?n. if j \<in> set U then ?f j else 0)"
    using sub by (simp add: sum.inter_restrict [symmetric] Int_absorb1)
  also have "\<dots> = (\<Sum>j = 0..<?n. gain m (vs ! j) * (extremum m (vs ! j) - lower (vs ! j)))"
  proof (intro sum.cong refl)
    fix j assume "j \<in> {0..<?n}"
    then have j: "j < ?n" by simp
    show "(if j \<in> set U then ?f j else 0)
        = gain m (vs ! j) * (extremum m (vs ! j) - lower (vs ! j))"
      using j by (cases "upper (vs ! j)")
        (simp_all add: U_def bounded_columns_props extremum_def room_def)
  qed
  also have "\<dots> = sum_list (map (\<lambda>j. gain m (vs ! j) * (extremum m (vs ! j) - lower (vs ! j)))
      [0..<?n])"
    by (simp add: interv_sum_list_conv_sum_set_nat)
  also have "map (\<lambda>j. gain m (vs ! j) * (extremum m (vs ! j) - lower (vs ! j))) [0..<?n]
      = map (\<lambda>v. gain m v * (extremum m v - lower v)) vs"
    by (rule nth_equalityI) simp_all
  finally show ?thesis .
qed

lemma sign_of_cases: "sign_of s = 1 \<and> s = Maximize \<or> sign_of s = - 1 \<and> s = Minimize"
  by (cases s) (simp_all add: sign_of_def)

lemma solve_without_constraints:
  assumes c: "model_constraints m = []" and w: "list_all well_bounded (model_variables m)"
  shows "solve m =
    (if list_ex (\<lambda>v. upper v = None \<and> tolerance < gain m v) (model_variables m)
     then Inr Unbounded
     else Inr (Optimal
       (map (\<lambda>v. (ident v, extremum m v)) (model_variables m))
       (constant_term (model_objective m)
        + sum_list (map (\<lambda>v. coefficient (model_objective m) (ident v) * extremum m v)
            (model_variables m)))
       (if list_all (\<lambda>v. domain v = Continuous \<or> integral_within (extremum m v))
            (model_variables m)
        then Exact else RelaxationBound)))"
proof -
  define vs where "vs = model_variables m"
  define U where "U = bounded_columns vs"
  define n where "n = length vs"
  define k where "k = length U"
  define cf where "cf = (\<lambda>j. gain m (vs ! j))"
  define bf where "bf = (\<lambda>i. room vs (U ! i))"
  define X where "X = {p. p < length U \<and> tolerance < cf (U ! p)}"
  define sf where "sf = transform m"
  have d: "distinct U"
    unfolding U_def by (rule bounded_columns_props)
  have un: "\<forall>u \<in> set U. u < n"
    by (simp add: U_def n_def bounded_columns_props)
  have sf: "sf =
     \<lparr>matrix = map (\<lambda>i. unit_row n (U ! i) @ unit_row (length U) i) [0..<length U],
      rhs_vector = map bf [0..<length U],
      objective_vector = map cf [0..<n] @ replicate (length U) 0,
      initial_basis = map (\<lambda>i. n + i) [0..<length U],
      artificial_from = n + length U,
      objective_offset =
        sign_of (model_sense m) * constant_term (model_objective m)
        + sum_list (map2 (\<lambda>k v. k * lower v) (map (gain m) vs) vs),
      negated = (model_sense m = Minimize)\<rparr>"
  proof -
    have "map (gain m) vs = map cf [0..<n]"
      unfolding cf_def n_def by (rule nth_equalityI) simp_all
    then have "map (gain m) vs @ replicate (length U) 0 = map cf [0..<n] @ replicate (length U) 0"
      by simp
    then show ?thesis
      unfolding sf_def transform_bounds [OF c w] vs_def [symmetric] U_def [symmetric]
        n_def [symmetric] bf_def
      by (simp only:)
  qed
  have no_art: "\<not> has_artificial sf"
    by (simp add: has_artificial_def sf)
  have rows: "initial_rows sf =
      zip (map (\<lambda>i. unit_row n (U ! i) @ unit_row (length U) i) [0..<length U])
        (zip (map bf [0..<length U]) (map (\<lambda>i. n + i) [0..<length U]))"
    by (simp add: initial_rows_def sf)
  have keep: "drop_artificial sf (initial_rows sf) = initial_rows sf"
    unfolding rows drop_artificial_def
    by (rule nth_equalityI) (simp_all add: sf)
  have whole: "take (artificial_from sf) (objective_vector sf)
      = map cf [0..<n] @ replicate (length U) 0"
    by (simp add: sf)
  have start: "price (take (artificial_from sf) (objective_vector sf))
      (drop_artificial sf (initial_rows sf)) = bound_tableau n cf U bf {}"
    unfolding keep whole unfolding rows by (rule initial_bound_tableau)
  have "card X \<le> card {..<length U}"
    by (rule card_mono) (auto simp add: X_def)
  then have cap: "card (X - {}) \<le> iteration_cap sf"
    by (simp add: iteration_cap_def sf)
  have run: "iterate (iteration_cap sf) (bound_tableau n cf U bf {}) =
    (if \<exists>j < n. j \<notin> set U \<and> tolerance < cf j then NoLeavingRow
     else AtOptimum (bound_tableau n cf U bf ({} \<union> X)))"
    unfolding X_def
    by (rule iterate_bound_tableau [OF d un]) (use cap in \<open>simp_all add: X_def\<close>)
  have cond: "(\<exists>j < n. j \<notin> set U \<and> tolerance < cf j)
      \<longleftrightarrow> list_ex (\<lambda>v. upper v = None \<and> tolerance < gain m v) vs"
  proof
    assume "\<exists>j < n. j \<notin> set U \<and> tolerance < cf j"
    then obtain j where j: "j < n" "j \<notin> set U" "tolerance < cf j" by blast
    then have "upper (vs ! j) = None"
      by (simp add: U_def n_def bounded_columns_props)
    moreover from j(1) have "vs ! j \<in> set vs"
      by (simp add: n_def)
    ultimately show "list_ex (\<lambda>v. upper v = None \<and> tolerance < gain m v) vs"
      using j(3) by (auto simp add: list_ex_iff cf_def)
  next
    assume "list_ex (\<lambda>v. upper v = None \<and> tolerance < gain m v) vs"
    then obtain v where v: "v \<in> set vs" "upper v = None" "tolerance < gain m v"
      by (auto simp add: list_ex_iff)
    then obtain j where j: "j < length vs" "vs ! j = v"
      by (auto simp add: in_set_conv_nth)
    with v have "j \<notin> set U"
      by (simp add: U_def bounded_columns_props)
    with j v(3) show "\<exists>j < n. j \<notin> set U \<and> tolerance < cf j"
      by (auto simp add: n_def cf_def)
  qed
  let ?T = "bound_tableau n cf U bf X"
  have vals: "map (\<lambda>(j, v). basic_value ?T j + lower v) (enumerate 0 vs)
      = map (extremum m) vs"
  proof (rule nth_equalityI)
    show "length (map (\<lambda>(j, v). basic_value ?T j + lower v) (enumerate 0 vs))
        = length (map (extremum m) vs)"
      by simp
    fix j assume "j < length (map (\<lambda>(j, v). basic_value ?T j + lower v) (enumerate 0 vs))"
    then have j: "j < length vs" by simp
    have "basic_value ?T j + lower (vs ! j) = extremum m (vs ! j)"
      using basic_value_bound_tableau [OF j, of m]
      by (simp add: n_def cf_def bf_def U_def X_def)
    with j show "map (\<lambda>(j, v). basic_value ?T j + lower v) (enumerate 0 vs) ! j
        = map (extremum m) vs ! j"
      by (simp add: nth_enumerate_eq)
  qed
  have obj: "objective_now ?T = sum_list (map (\<lambda>v. gain m v * (extremum m v - lower v)) vs)"
    using objective_bound_tableau [of vs m]
    by (simp add: n_def cf_def bf_def U_def X_def)
  have off: "objective_offset sf =
      sign_of (model_sense m) * constant_term (model_objective m)
      + sum_list (map (\<lambda>v. gain m v * lower v) vs)"
  proof -
    have "map2 (\<lambda>k v. k * lower v) (map (gain m) vs) vs = map (\<lambda>v. gain m v * lower v) vs"
      by (rule nth_equalityI) simp_all
    then show ?thesis
      by (simp add: sf)
  qed
  have total: "objective_now ?T + objective_offset sf =
      sign_of (model_sense m) *
        (constant_term (model_objective m)
         + sum_list (map (\<lambda>v. coefficient (model_objective m) (ident v) * extremum m v) vs))"
  proof -
    have "sum_list (map (\<lambda>v. gain m v * (extremum m v - lower v)) vs)
          + sum_list (map (\<lambda>v. gain m v * lower v) vs)
        = sum_list (map (\<lambda>v. gain m v * extremum m v) vs)"
      by (simp add: sum_list_addf [symmetric] algebra_simps)
    moreover have "sum_list (map (\<lambda>v. gain m v * extremum m v) vs)
        = sign_of (model_sense m)
          * sum_list (map (\<lambda>v. coefficient (model_objective m) (ident v) * extremum m v) vs)"
      by (simp add: sum_list_const_mult [symmetric] gain_def mult.assoc)
    ultimately show ?thesis
      unfolding obj off by (simp add: algebra_simps)
  qed
  have reported: "(if negated sf then - (objective_now ?T + objective_offset sf)
                   else objective_now ?T + objective_offset sf)
      = constant_term (model_objective m)
        + sum_list (map (\<lambda>v. coefficient (model_objective m) (ident v) * extremum m v) vs)"
    unfolding total using sign_of_cases [of "model_sense m"] by (auto simp add: sf)
  have kind: "list_all (\<lambda>(v, x). domain v = Continuous \<or> integral_within x)
        (zip vs (map (extremum m) vs))
      \<longleftrightarrow> list_all (\<lambda>v. domain v = Continuous \<or> integral_within (extremum m v)) vs"
    by (auto simp add: list_all_length)
  have names: "zip (map ident vs) (map (extremum m) vs) = map (\<lambda>v. (ident v, extremum m v)) vs"
    by (rule nth_equalityI) simp_all
  have rep: "report m sf ?T = Optimal
       (map (\<lambda>v. (ident v, extremum m v)) vs)
       (constant_term (model_objective m)
        + sum_list (map (\<lambda>v. coefficient (model_objective m) (ident v) * extremum m v) vs))
       (if list_all (\<lambda>v. domain v = Continuous \<or> integral_within (extremum m v)) vs
        then Exact else RelaxationBound)"
    unfolding report_def Let_def vs_def [symmetric] vals reported kind names ..
  have "solve m = phase2 m sf (initial_rows sf)"
    using no_art by (simp add: solve_def sf_def [symmetric])
  also have "\<dots> = (if \<exists>j < n. j \<notin> set U \<and> tolerance < cf j then Inr Unbounded
       else Inr (report m sf ?T))"
    unfolding phase2_def start run
    by (cases "\<exists>j < n. j \<notin> set U \<and> tolerance < cf j") auto
  finally show ?thesis
    unfolding cond rep vs_def .
qed

lemma maximize_x_facts:
  "model_constraints (maximize_x k u) = []"
  "model_variables (maximize_x k u) = [\<lparr>ident = ''x'', lower = 0, upper = u, domain = Continuous\<rparr>]"
  "gain (maximize_x k u) \<lparr>ident = ''x'', lower = 0, upper = u, domain = Continuous\<rparr> = k"
  "constant_term (model_objective (maximize_x k u)) = 0"
  "coefficient (model_objective (maximize_x k u)) ''x'' = k"
  by (simp_all add: maximize_x_def gain_def sign_of_def coefficient_def scale_def var_expr_def)

lemma solve_maximize_x:
  "solve (maximize_x 1 None) = Inr Unbounded"
  "solve (maximize_x 1 (Some 5)) = Inr (Optimal [(''x'', 5)] 5 Exact)"
  "solve (maximize_x (1 / 10 ^ 10) None) = Inr (Optimal [(''x'', 0)] 0 Exact)"
  "solve (maximize_x (1 / 10 ^ 10) (Some 5)) = Inr (Optimal [(''x'', 0)] 0 Exact)"
  by (simp_all add: solve_without_constraints maximize_x_facts well_bounded_def extremum_def
      tolerance_def)

lemma improves_slowly: "improves_without_bound (maximize_x (1 / 10 ^ 10) None)"
  unfolding improves_without_bound_def
proof
  fix k :: real
  let ?a = "\<lambda>x::string. 10 ^ 10 * (max 0 k + 1)"
  have "admissible (maximize_x (1 / 10 ^ 10) None) ?a"
    by (simp add: admissible_def maximize_x_def)
  moreover have "eval_expr ?a (model_objective (maximize_x (1 / 10 ^ 10) None)) = max 0 k + 1"
    by (simp add: maximize_x_def eval_expr_def scale_def var_expr_def)
  ultimately show "\<exists>a. admissible (maximize_x (1 / 10 ^ 10) None) a
      \<and> k < sign_of (model_sense (maximize_x (1 / 10 ^ 10) None))
            * eval_expr a (model_objective (maximize_x (1 / 10 ^ 10) None))"
    by (intro exI [of _ ?a]) (simp add: sign_of_def maximize_x_def)
qed

lemma no_positive_entry:
  assumes "entering_column t = Some j" "\<forall>i < length (body t). fst (body t ! i) ! j \<le> 0"
  shows "iterate fuel t = NoLeavingRow"
proof -
  have "filter (\<lambda>i. 0 < fst (body t ! i) ! j) [0..<length (body t)] = []"
    using assms(2) by (auto simp add: filter_empty_conv not_less)
  then have "leaving_row t j = None"
    by (simp add: leaving_row_def)
  with assms(1) show ?thesis
    by (subst iterate_unfold) simp
qed

lemma phase2_unbounded:
  "phase2 m sf rows = Inr Unbounded \<longleftrightarrow>
     iterate (iteration_cap sf)
       (price (take (artificial_from sf) (objective_vector sf)) (drop_artificial sf rows))
     = NoLeavingRow"
  by (simp add: phase2_def report_def Let_def split: outcome.splits)

text \<open>
  Runs in which the status that the engine returns and the growth of the objective differ. A
  coefficient of the improving sign that is within the tolerance does not count: maximising \<open>1e-10 * x\<close> for \<open>x \<ge> 0\<close>
  with no constraint, the objective improves without bound, yet all reduced costs are at least
  \<open>-tolerance\<close> and the engine stops at once with Optimal at \<open>x = 0\<close>; with the upper bound
  \<open>x \<le> 5\<close> it stops at \<open>x = 0\<close> too, not at the upper bound. And a model whose artificial
  variable is still basic, at level 0, when Phase 1 ends can end Unbounded although its objective
  is bounded: maximise \<open>x\<close> for \<open>x \<ge> 0\<close> subject to \<open>-x \<ge> 0\<close>.
\<close>

lemma held_at_zero_solved: "solve held_at_zero = Inr Unbounded"
  by code_simp

lemma held_at_zero_bounded: "\<not> improves_without_bound held_at_zero"
proof
  assume "improves_without_bound held_at_zero"
  then obtain a where a: "admissible held_at_zero a"
    and b: "0 < sign_of (model_sense held_at_zero) * eval_expr a (model_objective held_at_zero)"
    unfolding improves_without_bound_def by blast
  from a have "a ''x'' = 0"
    by (simp add: admissible_def held_at_zero_def satisfies_def eval_expr_def scale_def
        var_expr_def)
  with b show False
    by (simp add: held_at_zero_def sign_of_def eval_expr_def var_expr_def)
qed

lemma unboundedness_as_stated_fails:
  "improves_without_bound (maximize_x (1 / 10 ^ 10) None)
   \<and> solve (maximize_x (1 / 10 ^ 10) None) = Inr (Optimal [(''x'', 0)] 0 Exact)
   \<and> solve (maximize_x (1 / 10 ^ 10) (Some 5)) = Inr (Optimal [(''x'', 0)] 0 Exact)
   \<and> \<not> improves_without_bound held_at_zero
   \<and> solve held_at_zero = Inr Unbounded"
  by (intro conjI improves_slowly solve_maximize_x held_at_zero_bounded held_at_zero_solved)

end
